theory Spec2Isabelle
  imports Complex_Main "HOL-Library.Word" "HOL-Library.Char_ord" "HOL-Library.List_Lexorder"
begin

section \<open>The CIF reader of KLayout (dbCIFReader.cc)\<close>

text \<open>
  The reader consumes a text stream and fills a layout. The stream is modelled as the
  list of characters not yet consumed: \<open>at_end\<close> is the empty list, \<open>peek_char\<close> the head
  and \<open>get_char\<close> removes the head. The C++ type \<open>int\<close> is a 32-bit word whose arithmetic
  wraps around and whose comparisons are signed; \<open>double\<close> is modelled by \<open>real\<close>.
  Line numbers, progress reporting and the warning log are not part of the model.
\<close>

subsection \<open>Errors\<close>

text \<open>
  Every call of \<open>CIFReader::error\<close> throws a \<open>CIFReaderException\<close>; the constructors
  below name the messages of the source in the order in which they appear there.
\<close>

datatype error =
    UnexpectedEOF
  | ExpectedSemi
  | DigitExpected
  | IntegerOverflow
  | EInsideCell
  | DFOutsideCell
  | InvalidDCommand
  | InvalidMSpec
  | InvalidTransSpec
  | MissingLayerName

text \<open>
  A lexer function returns either the error together with the stream as it stood when
  the exception was thrown, or its value together with the rest of the stream.
\<close>

type_synonym 'a lex = "(error \<times> string) + ('a \<times> string)"

subsection \<open>Character classes of the C locale\<close>

definition isdigit :: "char \<Rightarrow> bool" where
  "isdigit c = (48 \<le> (of_char c :: nat) \<and> (of_char c :: nat) \<le> 57)"

definition isupper :: "char \<Rightarrow> bool" where
  "isupper c = (65 \<le> (of_char c :: nat) \<and> (of_char c :: nat) \<le> 90)"

definition islower :: "char \<Rightarrow> bool" where
  "islower c = (97 \<le> (of_char c :: nat) \<and> (of_char c :: nat) \<le> 122)"

definition isspace :: "char \<Rightarrow> bool" where
  "isspace c = ((of_char c :: nat) = 32 \<or> (9 \<le> (of_char c :: nat) \<and> (of_char c :: nat) \<le> 13))"

subsection \<open>The lexer\<close>

fun skip_blanks :: "string \<Rightarrow> string" where
  "skip_blanks [] = []"
| "skip_blanks (c # s) =
     (if isupper c \<or> isdigit c \<or> c = CHR ''-'' \<or> c = CHR ''('' \<or> c = CHR '')'' \<or> c = CHR '';''
      then c # s
      else skip_blanks s)"

fun skip_sep :: "string \<Rightarrow> string" where
  "skip_sep [] = []"
| "skip_sep (c # s) =
     (if isdigit c \<or> c = CHR ''-'' \<or> c = CHR ''('' \<or> c = CHR '')'' \<or> c = CHR '';''
      then c # s
      else skip_sep s)"

text \<open>
  \<open>skip_comment\<close>: the loop reads a character, leaves when it is a closing parenthesis at
  nesting level \<open>bl \<le> 0\<close>, and otherwise adjusts the level. \<open>bl\<close> is an \<open>int\<close>.
\<close>

fun skip_comment_loop :: "32 word \<Rightarrow> string \<Rightarrow> string" where
  "skip_comment_loop bl [] = []"
| "skip_comment_loop bl (c # s) =
     (if c \<noteq> CHR '')'' \<or> 0 <s bl
      then (if c = CHR ''('' then skip_comment_loop (bl + 1) s
            else if c = CHR '')'' then skip_comment_loop (bl - 1) s
            else skip_comment_loop bl s)
      else s)"

definition skip_comment :: "string \<Rightarrow> string" where
  "skip_comment s = skip_comment_loop 0 s"

definition get_char :: "string \<Rightarrow> char lex" where
  "get_char s = (case s of [] \<Rightarrow> Inl (UnexpectedEOF, []) | c # r \<Rightarrow> Inr (c, r))"

definition test_semi :: "string \<Rightarrow> bool \<times> string" where
  "test_semi s = (let r = skip_blanks s in (r \<noteq> [] \<and> hd r = CHR '';'', r))"

definition expect_semi :: "string \<Rightarrow> unit lex" where
  "expect_semi s =
     (case test_semi s of
        (False, r) \<Rightarrow> Inl (ExpectedSemi, r)
      | (True, r) \<Rightarrow> (case get_char r of Inl e \<Rightarrow> Inl e | Inr (c, r') \<Rightarrow> Inr ((), r')))"

fun skip_to_end :: "string \<Rightarrow> string" where
  "skip_to_end [] = []"
| "skip_to_end (c # s) = (if c \<noteq> CHR '';'' then skip_to_end s else s)"

text \<open>
  \<open>read_integer_digits\<close>: the accumulator \<open>i\<close> is an \<open>int\<close>; the guard compares it with
  \<open>std::numeric_limits<int>::max () / 10 = 214748364\<close> before the next digit is consumed.
  \<open>error\<close> throws, so the statements that follow it in the source (consuming the remaining
  digits, \<open>return 0\<close>) are never reached.
\<close>

definition int_max_div_10 :: "32 word" where
  "int_max_div_10 = 214748364"

fun read_integer_digits_loop :: "32 word \<Rightarrow> string \<Rightarrow> (32 word) lex" where
  "read_integer_digits_loop i [] = Inr (i, [])"
| "read_integer_digits_loop i (c # s) =
     (if isdigit c
      then (if int_max_div_10 <s i then Inl (IntegerOverflow, c # s)
            else read_integer_digits_loop (i * 10 + (of_char c - 48)) s)
      else Inr (i, c # s))"

definition read_integer_digits :: "string \<Rightarrow> (32 word) lex" where
  "read_integer_digits s =
     (if s = [] \<or> \<not> isdigit (hd s) then Inl (DigitExpected, s)
      else read_integer_digits_loop 0 s)"

definition read_integer :: "string \<Rightarrow> (32 word) lex" where
  "read_integer s = read_integer_digits (skip_sep s)"

text \<open>
  \<open>read_sinteger\<close> peeks for a minus sign without testing \<open>at_end\<close>; at the end of the
  stream the peeked character is not a minus sign and \<open>read_integer_digits\<close> fails.
\<close>

definition read_sinteger :: "string \<Rightarrow> (32 word) lex" where
  "read_sinteger s =
     (let r = skip_sep s;
          neg = (r \<noteq> [] \<and> hd r = CHR ''-'');
          r' = (if neg then tl r else r)
      in case read_integer_digits r' of
           Inl e \<Rightarrow> Inl e
         | Inr (i, r'') \<Rightarrow> Inr (if neg then - i else i, r''))"


definition is_name_char :: "char \<Rightarrow> bool" where
  "is_name_char c = (isupper c \<or> islower c \<or> c = CHR ''_'' \<or> isdigit c)"

definition read_name :: "string \<Rightarrow> string \<times> string" where
  "read_name s = (let r = skip_blanks s in (takeWhile is_name_char r, dropWhile is_name_char r))"

text \<open>\<open>m_stream.skip ()\<close> of the text stream skips white space in the ordinary sense.\<close>

definition stream_skip :: "string \<Rightarrow> string" where
  "stream_skip s = dropWhile isspace s"

text \<open>
  The body of a quoted string: characters up to the next quote \<open>q\<close>, where a backslash
  that is not the last character of the stream makes the character after it literal.
\<close>

fun read_quoted :: "char \<Rightarrow> string \<Rightarrow> string \<times> string" where
  "read_quoted q [] = ([], [])"
| "read_quoted q [c] = (if c = q then ([], [c]) else ([c], []))"
| "read_quoted q (c # d # s) =
     (if c = q then ([], c # d # s)
      else if c = CHR 0x5C
           then (case read_quoted q s of (b, r) \<Rightarrow> (d # b, r))
           else (case read_quoted q (d # s) of (b, r) \<Rightarrow> (c # b, r)))"

definition is_plain_string_char :: "char \<Rightarrow> bool" where
  "is_plain_string_char c = (\<not> isspace c \<and> c \<noteq> CHR '';'')"

definition read_string :: "string \<Rightarrow> string \<times> string" where
  "read_string s =
     (let r = stream_skip s in
      case r of
        [] \<Rightarrow> ([], [])
      | q # r' \<Rightarrow>
          if q = CHR 0x22 \<or> q = CHR 0x27
          then (case read_quoted q r' of (b, r'') \<Rightarrow> (b, if r'' \<noteq> [] then tl r'' else r''))
          else (takeWhile is_plain_string_char r, dropWhile is_plain_string_char r))"

definition is_double_char :: "char \<Rightarrow> bool" where
  "is_double_char c =
     (isdigit c \<or> c = CHR ''.'' \<or> c = CHR ''-'' \<or> c = CHR ''e'' \<or> c = CHR ''E'')"

text \<open>
  \<open>read_double\<close> collects the characters of a number and hands them to
  \<open>tl::from_string\<close>, which is not part of this file: the conversion \<open>from_string\<close> is a
  parameter (it includes the \<open>catch\<close> that turns a failed conversion into \<open>0.0\<close>).
\<close>

definition read_double :: "(string \<Rightarrow> real) \<Rightarrow> string \<Rightarrow> real \<times> string" where
  "read_double from_string s =
     (let r = stream_skip s
      in (from_string (takeWhile is_double_char r), dropWhile is_double_char r))"

subsection \<open>Layer names\<close>

text \<open>
  \<open>extract_plain_layer\<close> and \<open>extract_ld\<close> work on the characters of a name. Their
  accumulators are \<open>int\<close>s that are never checked for overflow. The result is \<open>None\<close>
  where the source returns \<open>false\<close>.
\<close>

fun digits_acc :: "32 word \<Rightarrow> string \<Rightarrow> 32 word \<times> string" where
  "digits_acc l [] = (l, [])"
| "digits_acc l (c # s) =
     (if isdigit c then digits_acc (l * 10 + (of_char c - 48)) s else (l, c # s))"

definition extract_plain_layer :: "string \<Rightarrow> (32 word) option" where
  "extract_plain_layer s =
     (if s = [] then None
      else case digits_acc 0 s of (l, r) \<Rightarrow> if r = [] then Some l else None)"

definition extract_ld :: "string \<Rightarrow> (32 word \<times> 32 word \<times> string) option" where
  "extract_ld s0 =
     (let s1 = (if s0 \<noteq> [] \<and> hd s0 = CHR ''L'' then tl s0 else s0) in
      if s1 = [] \<or> \<not> isdigit (hd s1) then None
      else case digits_acc 0 s1 of (l, s2) \<Rightarrow>
        (case (if s2 \<noteq> [] \<and> (hd s2 = CHR ''D'' \<or> hd s2 = CHR ''.'')
               then (let s3 = tl s2 in
                     if s3 = [] \<or> \<not> isdigit (hd s3) then None
                     else Some (digits_acc 0 s3))
               else Some (0, s2)) of
           None \<Rightarrow> None
         | Some (d, s4) \<Rightarrow>
             if s4 \<noteq> [] \<and> (isspace (hd s4) \<or> hd s4 = CHR ''_'') then Some (l, d, tl s4)
             else if s4 = [] then Some (l, d, [])
             else None))"


subsection \<open>The layout, the layer map and transformations\<close>

text \<open>
  The layout database, the layer map and the transformation classes are declared
  outside this file. They are modelled by the operations the reader calls, after the
  contracts in section 6 of the specification.
\<close>

type_synonym point = "real \<times> real"

text \<open>
  A shape as the reader hands it to \<open>cell.shapes (layer).insert\<close>: coordinates are the
  \<open>double\<close> values passed to the constructors of \<open>db::Box\<close>, \<open>db::Point\<close> and
  \<open>db::Vector\<close>; a path carries its width, its two extensions and the round flag.
\<close>

datatype shape =
    Box real real real real
  | Polygon "point list"
  | Path "point list" int int int bool
  | Text string point "int option"

text \<open>Modelled from the spec: \<open>db::DCplxTrans\<close>, a displacement, a rotation given by
  its sine and cosine, and a magnification whose sign is negative for a mirror.\<close>

record dcplx_trans =
  t_disp :: point
  t_sin :: real
  t_cos :: real
  t_mag :: real

definition trans_unit :: dcplx_trans where
  "trans_unit = \<lparr>t_disp = (0, 0), t_sin = 0, t_cos = 1, t_mag = 1\<rparr>"

definition trans_disp :: "point \<Rightarrow> dcplx_trans" where
  "trans_disp u = \<lparr>t_disp = u, t_sin = 0, t_cos = 1, t_mag = 1\<rparr>"

text \<open>Modelled from the spec: \<open>FTrans::m90\<close> maps \<open>x\<close> to \<open>-x\<close>, \<open>FTrans::m0\<close> maps
  \<open>y\<close> to \<open>-y\<close>.\<close>

definition trans_m90 :: dcplx_trans where
  "trans_m90 = \<lparr>t_disp = (0, 0), t_sin = 0, t_cos = - 1, t_mag = - 1\<rparr>"

definition trans_m0 :: dcplx_trans where
  "trans_m0 = \<lparr>t_disp = (0, 0), t_sin = 0, t_cos = 1, t_mag = - 1\<rparr>"

text \<open>Modelled from the spec: the rotation by an angle in degrees, without mirror and
  with magnification 1.\<close>

definition trans_rot :: "real \<Rightarrow> dcplx_trans" where
  "trans_rot a = \<lparr>t_disp = (0, 0), t_sin = sin (a * pi / 180), t_cos = cos (a * pi / 180), t_mag = 1\<rparr>"

definition trans_apply_vec :: "dcplx_trans \<Rightarrow> point \<Rightarrow> point" where
  "trans_apply_vec t p =
     (t_cos t * fst p * \<bar>t_mag t\<bar> - t_sin t * snd p * t_mag t,
      t_sin t * fst p * \<bar>t_mag t\<bar> + t_cos t * snd p * t_mag t)"

text \<open>Modelled from the spec: the product \<open>t1 * t2\<close> applies \<open>t2\<close> first.\<close>

definition trans_mult :: "dcplx_trans \<Rightarrow> dcplx_trans \<Rightarrow> dcplx_trans" where
  "trans_mult t1 t2 =
     (let s1 = (if t_mag t1 < 0 then - 1 else 1);
          v = trans_apply_vec t1 (t_disp t2)
      in \<lparr>t_disp = (fst (t_disp t1) + fst v, snd (t_disp t1) + snd v),
          t_sin = t_sin t1 * t_cos t2 + s1 * t_cos t1 * t_sin t2,
          t_cos = t_cos t1 * t_cos t2 - s1 * t_sin t1 * t_sin t2,
          t_mag = t_mag t1 * t_mag t2\<rparr>)"

text \<open>Modelled from the spec: an orthogonal rotation or mirror, and a magnification
  other than 1, both up to the tolerance of the transformation class.\<close>

definition trans_eps :: real where
  "trans_eps = 1 / 10 ^ 10"

definition is_ortho :: "dcplx_trans \<Rightarrow> bool" where
  "is_ortho t = (\<bar>t_sin t * t_cos t\<bar> \<le> trans_eps)"

definition is_mag :: "dcplx_trans \<Rightarrow> bool" where
  "is_mag t = (\<bar>\<bar>t_mag t\<bar> - 1\<bar> > trans_eps)"

text \<open>The function \<open>atan2\<close> of the C library.\<close>

definition atan2 :: "real \<Rightarrow> real \<Rightarrow> real" where
  "atan2 y x =
     (if 0 < x then arctan (y / x)
      else if x < 0 \<and> 0 \<le> y then arctan (y / x) + pi
      else if x < 0 then arctan (y / x) - pi
      else if 0 < y then pi / 2
      else if y < 0 then - pi / 2
      else 0)"

text \<open>
  A cell instance as the reader inserts it: the cell placed, whether the transformation
  is stored as a complex one (\<open>db::ICplxTrans\<close>) or as a simple one (\<open>db::Trans\<close>), the
  accumulated transformation, its displacement in integer coordinates, and for an
  array the two step vectors and the two counts.
\<close>

record cell_inst =
  inst_cell :: nat
  inst_complex :: bool
  inst_trans :: dcplx_trans
  inst_disp :: "int \<times> int"
  inst_array :: "((int \<times> int) \<times> (int \<times> int) \<times> 32 word \<times> 32 word) option"

record cell =
  cell_name :: string
  cell_shapes :: "(nat \<times> shape) list"
  cell_insts :: "cell_inst list"

record layer_props =
  lp_layer :: "32 word"
  lp_datatype :: "32 word"
  lp_name :: string

text \<open>Modelled from the spec: a default-constructed \<open>LayerProperties\<close> has no name and
  no numeric layer or datatype (both are \<open>-1\<close>).\<close>

definition default_props :: layer_props where
  "default_props = \<lparr>lp_layer = - 1, lp_datatype = - 1, lp_name = []\<rparr>"

text \<open>Modelled from the spec: the layout holds cells by cell index and layer
  properties by layer index; \<open>next_cell\<close> is the index the next new cell gets.\<close>

record layout =
  cells :: "nat \<rightharpoonup> cell"
  next_cell :: nat
  layers :: "(nat \<times> layer_props) list"
  lay_dbu :: real

definition delete_cell :: "nat \<Rightarrow> layout \<Rightarrow> layout" where
  "delete_cell ci l = l\<lparr>cells := (cells l)(ci := None)\<rparr>"

definition rename_cell :: "nat \<Rightarrow> string \<Rightarrow> layout \<Rightarrow> layout" where
  "rename_cell ci n l =
     l\<lparr>cells := (case cells l ci of None \<Rightarrow> cells l
                  | Some c \<Rightarrow> (cells l)(ci \<mapsto> c\<lparr>cell_name := n\<rparr>))\<rparr>"

definition insert_shape :: "nat \<Rightarrow> nat \<Rightarrow> shape \<Rightarrow> layout \<Rightarrow> layout" where
  "insert_shape ci ly sh l =
     l\<lparr>cells := (case cells l ci of None \<Rightarrow> cells l
                  | Some c \<Rightarrow> (cells l)(ci \<mapsto> c\<lparr>cell_shapes := cell_shapes c @ [(ly, sh)]\<rparr>))\<rparr>"

definition insert_inst :: "nat \<Rightarrow> cell_inst \<Rightarrow> layout \<Rightarrow> layout" where
  "insert_inst ci i l =
     l\<lparr>cells := (case cells l ci of None \<Rightarrow> cells l
                  | Some c \<Rightarrow> (cells l)(ci \<mapsto> c\<lparr>cell_insts := cell_insts c @ [i]\<rparr>))\<rparr>"

definition is_valid_layer :: "nat \<Rightarrow> layout \<Rightarrow> bool" where
  "is_valid_layer i l = (map_of (layers l) i \<noteq> None)"

fun set_entry :: "nat \<Rightarrow> layer_props \<Rightarrow> (nat \<times> layer_props) list \<Rightarrow> (nat \<times> layer_props) list" where
  "set_entry i p [] = [(i, p)]"
| "set_entry i p ((j, q) # r) = (if i = j then (i, p) # r else (j, q) # set_entry i p r)"

definition insert_layer :: "nat \<Rightarrow> layer_props \<Rightarrow> layout \<Rightarrow> layout" where
  "insert_layer i p l = l\<lparr>layers := set_entry i p (layers l)\<rparr>"

definition set_properties :: "nat \<Rightarrow> layer_props \<Rightarrow> layout \<Rightarrow> layout" where
  "set_properties i p l = l\<lparr>layers := set_entry i p (layers l)\<rparr>"

text \<open>Modelled from the spec: the layer map answers \<open>logical\<close> for a name and for layer
  properties, gives the properties of a logical layer and its next free index, and
  \<open>map\<close> enters a new pair.\<close>

record layer_map =
  lm_logical_name :: "string \<Rightarrow> nat option"
  lm_logical_props :: "layer_props \<Rightarrow> nat option"
  lm_mapping :: "nat \<Rightarrow> layer_props"
  lm_next_index :: nat

definition lm_map :: "layer_props \<Rightarrow> nat \<Rightarrow> layer_map \<Rightarrow> layer_map" where
  "lm_map p i m =
     m\<lparr>lm_logical_props := (lm_logical_props m)(p := Some i),
       lm_mapping := (lm_mapping m)(i := p)\<rparr>"

subsection \<open>The reader\<close>

text \<open>
  The options of one read and the services that are declared outside this file:
  \<open>coord_traits<Coord>::rounded\<close>, the layout's \<open>uniquify_cell_name\<close> (a function of
  the names in use and the name wanted) and \<open>tl::from_string\<close> for doubles.
\<close>

record options =
  m_dbu :: real
  m_wire_mode :: "32 word"
  m_create_layers :: bool
  rounded :: "real \<Rightarrow> int"
  uniquify :: "string set \<Rightarrow> string \<Rightarrow> string"
  from_string :: "string \<Rightarrow> real"

record reader =
  m_stream :: string
  m_cellname :: string
  m_cells_by_id :: "32 word \<rightharpoonup> nat"
  m_new_layers :: "(string \<times> nat) list"
  m_next_layer_index :: nat
  m_layer_map :: layer_map
  lay :: layout

definition cell_names :: "layout \<Rightarrow> string set" where
  "cell_names l = cell_name ` ran (cells l)"

definition uniquify_cell_name :: "options \<Rightarrow> layout \<Rightarrow> string \<Rightarrow> string" where
  "uniquify_cell_name opt l n = uniquify opt (cell_names l) n"

text \<open>Modelled from the spec: \<open>add_cell(name?)\<close> of the layout contract hands out the
  next cell index for a cell without shapes and instances. Without a name the layout
  takes a name of its own choice. A name that is given is kept unless a cell of the
  layout bears it already; then the layout makes it unique, as \<open>uniquify_cell_name\<close>
  does. \<open>new_cell\<close> enters the cell under the name settled.\<close>

definition new_cell :: "string \<Rightarrow> layout \<Rightarrow> nat \<times> layout" where
  "new_cell n l =
     (next_cell l,
      l\<lparr>cells := (cells l)(next_cell l \<mapsto> \<lparr>cell_name = n, cell_shapes = [], cell_insts = []\<rparr>),
        next_cell := Suc (next_cell l)\<rparr>)"

definition given_name :: "options \<Rightarrow> layout \<Rightarrow> string \<Rightarrow> string" where
  "given_name opt l n = (if n \<in> cell_names l then uniquify_cell_name opt l n else n)"

definition add_cell :: "options \<Rightarrow> string option \<Rightarrow> layout \<Rightarrow> nat \<times> layout" where
  "add_cell opt name l =
     new_cell (case name of None \<Rightarrow> uniquify_cell_name opt l [] | Some n \<Rightarrow> given_name opt l n) l"

text \<open>The local variables of one invocation of \<open>read_cell\<close>. The scratch vector
  \<open>poly_pts\<close> is cleared before each use and is local to the commands that use it.\<close>

record locals =
  nx :: "32 word"
  ny :: "32 word"
  dx :: "32 word"
  dy :: "32 word"
  layer :: int
  path_mode :: "32 word"
  insts :: nat
  shapes :: nat
  layer_specs :: nat

definition init_locals :: locals where
  "init_locals =
     \<lparr>nx = 0, ny = 0, dx = 0, dy = 0, layer = - 2, path_mode = - 1,
      insts = 0, shapes = 0, layer_specs = 0\<rparr>"

text \<open>A reader function returns the error and the reader as the exception leaves it,
  or its value and the reader.\<close>

type_synonym 'a rd = "(error \<times> reader) + ('a \<times> reader)"

definition lexr :: "(string \<Rightarrow> 'a lex) \<Rightarrow> reader \<Rightarrow> 'a rd" where
  "lexr f r =
     (case f (m_stream r) of
        Inl (e, s) \<Rightarrow> Inl (e, r\<lparr>m_stream := s\<rparr>)
      | Inr (v, s) \<Rightarrow> Inr (v, r\<lparr>m_stream := s\<rparr>))"

definition rbind :: "'a rd \<Rightarrow> ('a \<Rightarrow> reader \<Rightarrow> 'b rd) \<Rightarrow> 'b rd" where
  "rbind m f = (case m of Inl e \<Rightarrow> Inl e | Inr (v, r) \<Rightarrow> f v r)"


definition lexp :: "(string \<Rightarrow> 'a \<times> string) \<Rightarrow> reader \<Rightarrow> 'a rd" where
  "lexp f r = (case f (m_stream r) of (v, s) \<Rightarrow> Inr (v, r\<lparr>m_stream := s\<rparr>))"

definition lexs :: "(string \<Rightarrow> string) \<Rightarrow> reader \<Rightarrow> reader" where
  "lexs f r = r\<lparr>m_stream := f (m_stream r)\<rparr>"

text \<open>\<open>tl::to_string\<close> of an unsigned number: its decimal digits.\<close>

definition digit_char :: "nat \<Rightarrow> char" where
  "digit_char d = ''0123456789'' ! d"

fun to_dec :: "nat \<Rightarrow> string" where
  "to_dec n = (if n < 10 then [digit_char n] else to_dec (n div 10) @ [digit_char (n mod 10)])"

declare to_dec.simps [simp del]

definition to_string :: "32 word \<Rightarrow> string" where
  "to_string n = to_dec (unat n)"

subsection \<open>Reading lists of points and transformations\<close>

text \<open>The loop \<open>while (! test_semi ())\<close> of the \<open>P\<close> and \<open>W\<close> commands: each round reads
  two signed integers and appends the scaled point.\<close>

function read_points :: "real \<Rightarrow> string \<Rightarrow> (point list) lex" where
  "read_points sf s =
     (case test_semi s of
        (True, r) \<Rightarrow> Inr ([], r)
      | (False, r) \<Rightarrow>
          (case read_sinteger r of
             Inl e \<Rightarrow> Inl e
           | Inr (rx, r1) \<Rightarrow>
               (case read_sinteger r1 of
                  Inl e \<Rightarrow> Inl e
                | Inr (ry, r2) \<Rightarrow>
                    (case read_points sf r2 of
                       Inl e \<Rightarrow> Inl e
                     | Inr (ps, r3) \<Rightarrow> Inr ((sf * real_of_int (sint rx), sf * real_of_int (sint ry)) # ps, r3)))))"
  by pat_completeness auto

text \<open>The transformation of a \<open>C\<close> command: each item is multiplied to the running
  transformation from the left.\<close>

function read_trans :: "real \<Rightarrow> dcplx_trans \<Rightarrow> string \<Rightarrow> dcplx_trans lex" where
  "read_trans sf t s =
     (case test_semi s of
        (True, r) \<Rightarrow> Inr (t, r)
      | (False, r) \<Rightarrow>
          (case get_char (skip_blanks r) of
             Inl e \<Rightarrow> Inl e
           | Inr (ct, r1) \<Rightarrow>
               if ct = CHR ''M'' then
                 (case get_char (skip_blanks r1) of
                    Inl e \<Rightarrow> Inl e
                  | Inr (ct2, r2) \<Rightarrow>
                      if ct2 = CHR ''X'' then read_trans sf (trans_mult trans_m90 t) r2
                      else if ct2 = CHR ''Y'' then read_trans sf (trans_mult trans_m0 t) r2
                      else Inl (InvalidMSpec, r2))
               else if ct = CHR ''T'' then
                 (case read_sinteger r1 of
                    Inl e \<Rightarrow> Inl e
                  | Inr (x, r2) \<Rightarrow>
                      (case read_sinteger r2 of
                         Inl e \<Rightarrow> Inl e
                       | Inr (y, r3) \<Rightarrow>
                           read_trans sf
                             (trans_mult (trans_disp (real_of_int (sint x) * sf, real_of_int (sint y) * sf)) t) r3))
               else if ct = CHR ''R'' then
                 (case read_sinteger r1 of
                    Inl e \<Rightarrow> Inl e
                  | Inr (x, r2) \<Rightarrow>
                      (case read_sinteger r2 of
                         Inl e \<Rightarrow> Inl e
                       | Inr (y, r3) \<Rightarrow>
                           if y \<noteq> 0 \<or> x \<noteq> 0
                           then read_trans sf
                                  (trans_mult
                                     (trans_rot (atan2 (real_of_int (sint y)) (real_of_int (sint x)) * 180 / pi)) t) r3
                           else read_trans sf t r3))
               else Inl (InvalidTransSpec, r1)))"
  by pat_completeness auto


subsection \<open>Lengths of the remaining stream\<close>

lemma skip_blanks_le: "length (skip_blanks s) \<le> length s"
  by (induction s) (auto simp: le_SucI)

lemma skip_sep_le: "length (skip_sep s) \<le> length s"
  by (induction s) (auto simp: le_SucI)

lemma skip_to_end_le: "length (skip_to_end s) \<le> length s"
  by (induction s) (auto simp: le_SucI)

lemma skip_comment_loop_le: "length (skip_comment_loop bl s) \<le> length s"
  by (induction s arbitrary: bl) (auto simp: le_SucI)

lemma test_semi_le: "test_semi s = (b, r) \<Longrightarrow> length r \<le> length s"
  using skip_blanks_le [of s] by (auto simp: test_semi_def Let_def)

lemma test_semi_le_sym: "(b, r) = test_semi s \<Longrightarrow> length r \<le> length s"
  by (rule test_semi_le [OF sym])

lemma lt_skip_blanks: "n < length (skip_blanks s) \<Longrightarrow> n < length s"
  using skip_blanks_le [of s] by simp

lemma get_char_lt: "get_char s = Inr (c, r) \<Longrightarrow> length r < length s"
  by (auto simp: get_char_def split: list.splits)

lemma read_integer_digits_loop_le:
  "read_integer_digits_loop i s = Inr (v, r) \<Longrightarrow> length r \<le> length s"
  by (induction s arbitrary: i) (auto simp: le_SucI split: if_splits)

lemma read_integer_digits_lt: "read_integer_digits s = Inr (v, r) \<Longrightarrow> length r < length s"
  by (cases s)
     (auto simp: read_integer_digits_def less_Suc_eq_le split: if_splits
           dest: read_integer_digits_loop_le)

lemma read_integer_lt: "read_integer s = Inr (v, r) \<Longrightarrow> length r < length s"
  using skip_sep_le [of s] by (auto simp: read_integer_def dest!: read_integer_digits_lt)

lemma read_sinteger_lt: "read_sinteger s = Inr (v, r) \<Longrightarrow> length r < length s"
proof -
  assume a: "read_sinteger s = Inr (v, r)"
  let ?r = "skip_sep s"
  let ?neg = "?r \<noteq> [] \<and> hd ?r = CHR ''-''"
  let ?r' = "if ?neg then tl ?r else ?r"
  from a obtain i where "read_integer_digits ?r' = Inr (i, r)"
    by (auto simp: read_sinteger_def Let_def split: sum.splits if_splits)
  then have "length r < length ?r'" by (rule read_integer_digits_lt)
  moreover have "length ?r' \<le> length ?r" by simp
  ultimately show ?thesis using skip_sep_le [of s] by linarith
qed

termination read_points
  by (relation "measure (\<lambda>(sf, s). length s)")
     (auto dest!: test_semi_le_sym read_sinteger_lt)

termination read_trans
  by (relation "measure (\<lambda>(sf, t, s). length s)")
     (auto dest!: test_semi_le_sym read_sinteger_lt get_char_lt lt_skip_blanks)

declare read_points.simps [simp del]
declare read_trans.simps [simp del]

subsection \<open>The commands\<close>

text \<open>
  Each function below is one branch of the dispatch in \<open>read_cell\<close>, entered after the
  command character has been consumed. \<open>ci\<close> is the index of the cell being read and
  \<open>sf\<close> the scale factor. Division by zero (\<open>DS\<close> with divider 0, a database unit 0) gives
  an infinity in the source and 0 in the model; no statement below concerns such input.
\<close>

definition box_shape ::
  "real \<Rightarrow> 32 word \<Rightarrow> 32 word \<Rightarrow> 32 word \<Rightarrow> 32 word \<Rightarrow> 32 word \<Rightarrow> 32 word \<Rightarrow> shape" where
  "box_shape sf w h x y rx ry =
     (let wr = real (unat w); hr = real (unat h);
          xr = real_of_int (sint x); yr = real_of_int (sint y);
          rxr = real_of_int (sint rx); ryr = real_of_int (sint ry)
      in if 0 \<le>s rx \<and> ry = 0
         then Box (sf * (xr - 0.5 * wr)) (sf * (yr - 0.5 * hr)) (sf * (xr + 0.5 * wr)) (sf * (yr + 0.5 * hr))
         else
           (let n = 1 / sqrt (rxr * rxr + ryr * ryr);
                xw = sf * wr * 0.5 * rxr * n; yw = sf * wr * 0.5 * ryr * n;
                xh = - sf * hr * 0.5 * ryr * n; yh = sf * hr * 0.5 * rxr * n
            in Polygon [(xr - xw - xh, yr - yw - yh), (xr - xw + xh, yr - yw + yh),
                        (xr + xw + xh, yr + yw + yh), (xr + xw - xh, yr + yw - yh)]))"

definition read_opt_direction :: "reader \<Rightarrow> (32 word \<times> 32 word) rd" where
  "read_opt_direction r =
     (case test_semi (m_stream r) of
        (True, s) \<Rightarrow> Inr ((0, 0), r\<lparr>m_stream := s\<rparr>)
      | (False, s) \<Rightarrow>
          rbind (lexr read_sinteger (r\<lparr>m_stream := s\<rparr>)) (\<lambda>rx r.
          rbind (lexr read_sinteger r) (\<lambda>ry r. Inr ((rx, ry), r))))"

definition cmd_B :: "nat \<Rightarrow> real \<Rightarrow> locals \<Rightarrow> reader \<Rightarrow> locals rd" where
  "cmd_B ci sf l r0 =
     (if layer l < 0 then Inr (l\<lparr>shapes := shapes l + 1\<rparr>, lexs skip_to_end r0)
      else
        rbind (lexr read_integer r0) (\<lambda>w r.
        rbind (lexr read_integer r) (\<lambda>h r.
        rbind (lexr read_sinteger r) (\<lambda>x r.
        rbind (lexr read_sinteger r) (\<lambda>y r.
        rbind (read_opt_direction r) (\<lambda>d r.
        rbind (lexr expect_semi
                 (r\<lparr>lay := insert_shape ci (nat (layer l)) (box_shape sf w h x y (fst d) (snd d)) (lay r)\<rparr>))
          (\<lambda>u r. Inr (l\<lparr>shapes := shapes l + 1\<rparr>, r))))))))"

definition cmd_P :: "nat \<Rightarrow> real \<Rightarrow> locals \<Rightarrow> reader \<Rightarrow> locals rd" where
  "cmd_P ci sf l r0 =
     (if layer l < 0 then Inr (l\<lparr>shapes := shapes l + 1\<rparr>, lexs skip_to_end r0)
      else
        rbind (lexr (read_points sf) r0) (\<lambda>pts r.
        rbind (lexr expect_semi (r\<lparr>lay := insert_shape ci (nat (layer l)) (Polygon pts) (lay r)\<rparr>))
          (\<lambda>u r. Inr (l\<lparr>shapes := shapes l + 1\<rparr>, r))))"

definition cmd_R :: "options \<Rightarrow> nat \<Rightarrow> real \<Rightarrow> locals \<Rightarrow> reader \<Rightarrow> locals rd" where
  "cmd_R opt ci sf l r0 =
     (if layer l < 0 then Inr (l\<lparr>shapes := shapes l + 1\<rparr>, lexs skip_to_end r0)
      else
        rbind (lexr read_integer r0) (\<lambda>w r.
        rbind (lexr read_sinteger r) (\<lambda>rx r.
        rbind (lexr read_sinteger r) (\<lambda>ry r.
        rbind (lexr expect_semi
                 (r\<lparr>lay := insert_shape ci (nat (layer l))
                    (Path [(sf * real_of_int (sint rx), sf * real_of_int (sint ry))]
                       (rounded opt (sf * real_of_int (sint w)))
                       (rounded opt (sf * real_of_int (sint w) / 2))
                       (rounded opt (sf * real_of_int (sint w) / 2)) True)
                    (lay r)\<rparr>))
          (\<lambda>u r. Inr (l\<lparr>shapes := shapes l + 1\<rparr>, r))))))"

text \<open>The path of a \<open>W\<close> command: \<open>pm\<close> is \<open>path_mode\<close>, set by a \<open>98\<close> command and \<open>-1\<close>
  before; the reader's \<open>m_wire_mode\<close> decides when \<open>pm\<close> is negative.\<close>

definition wire_path :: "options \<Rightarrow> real \<Rightarrow> 32 word \<Rightarrow> point list \<Rightarrow> 32 word \<Rightarrow> shape" where
  "wire_path opt sf w pts pm =
     (if pm = 0 \<or> (pm <s 0 \<and> m_wire_mode opt = 1)
      then Path pts (rounded opt (sf * real_of_int (sint w))) 0 0 False
      else if pm = 1 \<or> (pm <s 0 \<and> m_wire_mode opt = 2)
      then Path pts (rounded opt (sf * real_of_int (sint w)))
             (rounded opt (sf * real_of_int (sint w) / 2))
             (rounded opt (sf * real_of_int (sint w) / 2)) True
      else Path pts (rounded opt (sf * real_of_int (sint w)))
             (rounded opt (sf * real_of_int (sint w) / 2))
             (rounded opt (sf * real_of_int (sint w) / 2)) False)"

definition cmd_W :: "options \<Rightarrow> nat \<Rightarrow> real \<Rightarrow> locals \<Rightarrow> reader \<Rightarrow> locals rd" where
  "cmd_W opt ci sf l r0 =
     (if layer l < 0 then Inr (l\<lparr>shapes := shapes l + 1\<rparr>, lexs skip_to_end r0)
      else
        rbind (lexr read_integer r0) (\<lambda>w r.
        rbind (lexr (read_points sf) r) (\<lambda>pts r.
        rbind (lexr expect_semi
                 (r\<lparr>lay := insert_shape ci (nat (layer l)) (wire_path opt sf w pts (path_mode l)) (lay r)\<rparr>))
          (\<lambda>u r. Inr (l\<lparr>shapes := shapes l + 1\<rparr>, r)))))"


text \<open>The \<open>L\<close> command. \<open>resolve_layer\<close> is the lookup in the layer map: by name, then
  as a plain number, then in the notation \<open>LxDy\<close>.\<close>

definition resolve_layer :: "layer_map \<Rightarrow> string \<Rightarrow> nat option" where
  "resolve_layer lm n =
     (case lm_logical_name lm n of
        Some i \<Rightarrow> Some i
      | None \<Rightarrow>
          (case extract_plain_layer n of
             Some l \<Rightarrow> lm_logical_props lm \<lparr>lp_layer = l, lp_datatype = 0, lp_name = []\<rparr>
           | None \<Rightarrow>
               (case extract_ld n of
                  Some (l, d, on) \<Rightarrow> lm_logical_props lm \<lparr>lp_layer = l, lp_datatype = d, lp_name = on\<rparr>
                | None \<Rightarrow> None)))"

definition select_layer :: "options \<Rightarrow> string \<Rightarrow> reader \<Rightarrow> int \<times> reader" where
  "select_layer opt n r =
     (case resolve_layer (m_layer_map r) n of
        Some i \<Rightarrow>
          (int i,
           if is_valid_layer i (lay r) then r
           else r\<lparr>lay := insert_layer i (lm_mapping (m_layer_map r) i) (lay r)\<rparr>)
      | None \<Rightarrow>
          if \<not> m_create_layers opt then (- 1, r)
          else
            (case map_of (m_new_layers r) n of
               None \<Rightarrow>
                 (int (m_next_layer_index r),
                  r\<lparr>m_next_layer_index := Suc (m_next_layer_index r),
                    lay := insert_layer (m_next_layer_index r) default_props (lay r),
                    m_new_layers := insort_key fst (n, m_next_layer_index r) (m_new_layers r)\<rparr>)
             | Some i \<Rightarrow> (int i, r)))"

definition cmd_L :: "options \<Rightarrow> locals \<Rightarrow> reader \<Rightarrow> locals rd" where
  "cmd_L opt l r0 =
     rbind (lexp read_name (lexs skip_blanks r0)) (\<lambda>n r.
       if n = [] then Inl (MissingLayerName, r)
       else
         (case select_layer opt n r of
            (ly, r') \<Rightarrow>
              rbind (lexr expect_semi r')
                (\<lambda>u r. Inr (l\<lparr>layer_specs := layer_specs l + 1, layer := ly\<rparr>, r))))"

text \<open>The \<open>C\<close> command. \<open>cell_for_id\<close> is the lookup of the cell id in
  \<open>m_cells_by_id\<close>, which adds a cell named \<open>C<id>\<close> when the id is new.\<close>

definition cell_for_id :: "options \<Rightarrow> 32 word \<Rightarrow> reader \<Rightarrow> nat \<times> reader" where
  "cell_for_id opt n r =
     (case m_cells_by_id r n of
        Some c \<Rightarrow> (c, r)
      | None \<Rightarrow>
          (case add_cell opt (Some (''C'' @ to_string n)) (lay r) of
             (c, l') \<Rightarrow> (c, r\<lparr>m_cells_by_id := (m_cells_by_id r)(n \<mapsto> c), lay := l'\<rparr>)))"

definition make_inst :: "options \<Rightarrow> real \<Rightarrow> locals \<Rightarrow> nat \<Rightarrow> dcplx_trans \<Rightarrow> cell_inst" where
  "make_inst opt sf l c t =
     \<lparr>inst_cell = c,
      inst_complex = (\<not> (is_ortho t \<and> \<not> is_mag t)),
      inst_trans = t,
      inst_disp = (rounded opt (fst (t_disp t)), rounded opt (snd (t_disp t))),
      inst_array =
        (if 0 <s nx l \<or> 0 <s ny l
         then Some ((rounded opt (real_of_int (sint (dx l)) * sf), rounded opt 0),
                    (rounded opt 0, rounded opt (real_of_int (sint (dy l)) * sf)),
                    (if 1 <s nx l then nx l else 1), (if 1 <s ny l then ny l else 1))
         else None)\<rparr>"

definition cmd_C :: "options \<Rightarrow> nat \<Rightarrow> real \<Rightarrow> locals \<Rightarrow> reader \<Rightarrow> locals rd" where
  "cmd_C opt ci sf l r0 =
     rbind (lexr read_integer r0) (\<lambda>n r.
       (case cell_for_id opt n r of
          (c, r1) \<Rightarrow>
            rbind (lexr (read_trans sf trans_unit) r1) (\<lambda>t r.
            rbind (lexr expect_semi (r\<lparr>lay := insert_inst ci (make_inst opt sf l c t) (lay r)\<rparr>))
              (\<lambda>u r. Inr (l\<lparr>insts := insts l + 1, nx := 0, ny := 0, dx := 0, dy := 0\<rparr>, r)))))"

text \<open>The commands that start with a digit. \<open>cc\<close> is the character peeked after the
  digit \<open>c\<close>; at the end of the stream the peeked character is the null character.\<close>

definition text_layer :: "layer_map \<Rightarrow> string \<Rightarrow> int \<Rightarrow> nat" where
  "text_layer lm n ly =
     (if n \<noteq> [] then (case lm_logical_name lm n of Some i \<Rightarrow> i | None \<Rightarrow> nat ly) else nat ly)"

definition read_opt_height :: "options \<Rightarrow> reader \<Rightarrow> real rd" where
  "read_opt_height opt r =
     (case test_semi (m_stream r) of
        (True, s) \<Rightarrow> Inr (0, r\<lparr>m_stream := s\<rparr>)
      | (False, s) \<Rightarrow> lexp (read_double (from_string opt)) (r\<lparr>m_stream := s\<rparr>))"

definition cmd_94 :: "options \<Rightarrow> nat \<Rightarrow> real \<Rightarrow> locals \<Rightarrow> reader \<Rightarrow> locals rd" where
  "cmd_94 opt ci sf l r0 =
     (if layer l < 0 then Inr (l\<lparr>shapes := shapes l + 1\<rparr>, r0)
      else
        rbind (lexp read_string r0) (\<lambda>txt r.
        rbind (lexr read_sinteger r) (\<lambda>rx r.
        rbind (lexr read_sinteger r) (\<lambda>ry r.
        rbind (read_opt_height opt r) (\<lambda>h r.
        rbind (lexp read_name r) (\<lambda>n r.
          Inr (l\<lparr>shapes := shapes l + 1\<rparr>,
               r\<lparr>lay := insert_shape ci (text_layer (m_layer_map r) n (layer l))
                     (Text txt (sf * real_of_int (sint rx), sf * real_of_int (sint ry))
                        (Some (rounded opt (h / m_dbu opt))))
                     (lay r)\<rparr>)))))))"

definition cmd_95 :: "nat \<Rightarrow> real \<Rightarrow> locals \<Rightarrow> reader \<Rightarrow> locals rd" where
  "cmd_95 ci sf l r0 =
     (if layer l < 0 then Inr (l\<lparr>shapes := shapes l + 1\<rparr>, r0)
      else
        rbind (lexp read_string r0) (\<lambda>txt r.
        rbind (lexr read_sinteger r) (\<lambda>bw r.
        rbind (lexr read_sinteger r) (\<lambda>bh r.
        rbind (lexr read_sinteger r) (\<lambda>rx r.
        rbind (lexr read_sinteger r) (\<lambda>ry r.
          Inr (l\<lparr>shapes := shapes l + 1\<rparr>,
               r\<lparr>lay := insert_shape ci (nat (layer l))
                     (Text txt (sf * real_of_int (sint rx), sf * real_of_int (sint ry)) None)
                     (lay r)\<rparr>)))))))"

definition cmd_93 :: "locals \<Rightarrow> reader \<Rightarrow> locals rd" where
  "cmd_93 l r0 =
     rbind (lexr read_sinteger r0) (\<lambda>a r.
     rbind (lexr read_sinteger r) (\<lambda>b r.
     rbind (lexr read_sinteger r) (\<lambda>c r.
     rbind (lexr read_sinteger r) (\<lambda>d r.
       Inr (l\<lparr>nx := a, dx := b, ny := c, dy := d\<rparr>, r)))))"

definition cmd_9 :: "options \<Rightarrow> nat \<Rightarrow> locals \<Rightarrow> reader \<Rightarrow> locals rd" where
  "cmd_9 opt ci l r0 =
     rbind (lexp read_string r0) (\<lambda>n r.
       Inr (l, r\<lparr>m_cellname := uniquify_cell_name opt (lay r) n,
                 lay := rename_cell ci (uniquify_cell_name opt (lay r) n) (lay r)\<rparr>))"

definition peek_char :: "string \<Rightarrow> char" where
  "peek_char s = (case s of [] \<Rightarrow> CHR 0x00 | c # r \<Rightarrow> c)"

definition cmd_digit :: "options \<Rightarrow> nat \<Rightarrow> real \<Rightarrow> char \<Rightarrow> locals \<Rightarrow> reader \<Rightarrow> locals rd" where
  "cmd_digit opt ci sf c l r0 =
     (let cc = peek_char (m_stream r0) in
      rbind
        (if c = CHR ''9'' \<and> cc = CHR ''3'' then cmd_93 l (lexs tl r0)
         else if c = CHR ''9'' \<and> cc = CHR ''4'' then cmd_94 opt ci sf l (lexs tl r0)
         else if c = CHR ''9'' \<and> cc = CHR ''5'' then cmd_95 ci sf l (lexs tl r0)
         else if c = CHR ''9'' \<and> cc = CHR ''8''
           then rbind (lexr read_integer (lexs tl r0)) (\<lambda>pm r. Inr (l\<lparr>path_mode := pm\<rparr>, r))
         else if c = CHR ''9'' \<and> \<not> isdigit cc then cmd_9 opt ci l r0
         else Inr (l, r0))
        (\<lambda>l' r. Inr (l', lexs skip_to_end r)))"

text \<open>
  One round of the loop of \<open>read_cell\<close> gives a step: the loop goes on, it ends (\<open>E\<close>
  and \<open>DF\<close>), an exception leaves it, or a \<open>DS\<close> command enters the cell it defines.
  \<open>Enter\<close> carries the saved \<open>outer_cell\<close> name, the cell, the new scale factor and the
  reader, in which \<open>m_cellname\<close> is the name \<open>C<id>\<close>.
\<close>

datatype step =
    Continue locals reader
  | Stop locals reader
  | Fail error reader
  | Enter string nat real reader

definition to_step :: "locals rd \<Rightarrow> step" where
  "to_step x = (case x of Inl (e, r) \<Rightarrow> Fail e r | Inr (l, r) \<Rightarrow> Continue l r)"

definition read_DS_header :: "reader \<Rightarrow> (32 word \<times> 32 word \<times> 32 word) rd" where
  "read_DS_header r0 =
     rbind (lexr read_integer r0) (\<lambda>n r.
       (case test_semi (m_stream r) of
          (True, s) \<Rightarrow>
            rbind (lexr expect_semi (r\<lparr>m_stream := s\<rparr>)) (\<lambda>u r. Inr ((n, 1, 1), r))
        | (False, s) \<Rightarrow>
            rbind (lexr read_integer (r\<lparr>m_stream := s\<rparr>)) (\<lambda>denom r.
            rbind (lexr read_integer r) (\<lambda>divider r.
            rbind (lexr expect_semi r) (\<lambda>u r. Inr ((n, denom, divider), r))))))"

definition enter_DS :: "options \<Rightarrow> real \<Rightarrow> 32 word \<Rightarrow> 32 word \<Rightarrow> 32 word \<Rightarrow> reader \<Rightarrow> step" where
  "enter_DS opt sf n denom divider r =
     (let outer_cell = m_cellname r;
          r1 = r\<lparr>m_cellname := ''C'' @ to_string n\<rparr>;
          sf' = sf * real (unat denom) / real (unat divider)
      in case m_cells_by_id r1 n of
           None \<Rightarrow>
             (case add_cell opt (Some (m_cellname r1)) (lay r1) of
                (c, l') \<Rightarrow>
                  Enter outer_cell c sf' (r1\<lparr>m_cells_by_id := (m_cells_by_id r1)(n \<mapsto> c), lay := l'\<rparr>))
         | Some c \<Rightarrow> Enter outer_cell c sf' r1)"

definition cmd_D :: "options \<Rightarrow> real \<Rightarrow> nat \<Rightarrow> locals \<Rightarrow> reader \<Rightarrow> step" where
  "cmd_D opt sf level l r0 =
     (case lexr get_char (lexs skip_blanks r0) of
        Inl (e, r) \<Rightarrow> Fail e r
      | Inr (c, r) \<Rightarrow>
          if c = CHR ''S'' then
            (case read_DS_header r of
               Inl (e, r') \<Rightarrow> Fail e r'
             | Inr ((n, denom, divider), r') \<Rightarrow> enter_DS opt sf n denom divider r')
          else if c = CHR ''F'' then
            (if level = 0 then Fail DFOutsideCell r else Stop l (lexs skip_to_end r))
          else if c = CHR ''D'' then
            (case lexr read_integer r of
               Inl (e, r') \<Rightarrow> Fail e r'
             | Inr (n, r') \<Rightarrow> Continue l (lexs skip_to_end r'))
          else Fail InvalidDCommand r)"

definition read_command :: "options \<Rightarrow> nat \<Rightarrow> real \<Rightarrow> nat \<Rightarrow> locals \<Rightarrow> reader \<Rightarrow> step" where
  "read_command opt ci sf level l r0 =
     (case lexr get_char (lexs skip_blanks r0) of
        Inl (e, r) \<Rightarrow> Fail e r
      | Inr (c, r) \<Rightarrow>
          if c = CHR '';'' then Continue l r
          else if c = CHR ''('' then Continue l (lexs skip_comment r)
          else if c = CHR ''E'' then
            (if 0 < level then Fail EInsideCell r else Stop l (lexs skip_blanks r))
          else if c = CHR ''D'' then cmd_D opt sf level l r
          else if c = CHR ''C'' then to_step (cmd_C opt ci sf l r)
          else if c = CHR ''L'' then to_step (cmd_L opt l r)
          else if c = CHR ''B'' then to_step (cmd_B ci sf l r)
          else if c = CHR ''P'' then to_step (cmd_P ci sf l r)
          else if c = CHR ''R'' then to_step (cmd_R opt ci sf l r)
          else if c = CHR ''W'' then to_step (cmd_W opt ci sf l r)
          else if isdigit c then to_step (cmd_digit opt ci sf c l r)
          else Continue l (lexs skip_to_end r))"


subsection \<open>Every command consumes input\<close>

lemma rbind_InrE:
  assumes "rbind m f = Inr (v, r')"
  obtains x r1 where "m = Inr (x, r1)" and "f x r1 = Inr (v, r')"
  using assms by (auto simp: rbind_def split: sum.splits)

lemma lexr_le:
  assumes "lexr f r = Inr (v, r')" and "\<And>s x s'. f s = Inr (x, s') \<Longrightarrow> length s' \<le> length s"
  shows "length (m_stream r') \<le> length (m_stream r)"
  using assms by (auto simp: lexr_def split: sum.splits prod.splits)

lemma lexr_lt:
  assumes "lexr f r = Inr (v, r')" and "\<And>s x s'. f s = Inr (x, s') \<Longrightarrow> length s' < length s"
  shows "length (m_stream r') < length (m_stream r)"
  using assms by (auto simp: lexr_def split: sum.splits prod.splits)

lemma lexp_le:
  assumes "lexp f r = Inr (v, r')" and "\<And>s x s'. f s = (x, s') \<Longrightarrow> length s' \<le> length s"
  shows "length (m_stream r') \<le> length (m_stream r)"
  using assms by (auto simp: lexp_def split: sum.splits prod.splits)

lemma lexs_le:
  assumes "\<And>s. length (f s) \<le> length s"
  shows "length (m_stream (lexs f r)) \<le> length (m_stream r)"
  using assms by (auto simp: lexs_def)

lemma expect_semi_lt: "expect_semi s = Inr (u, r) \<Longrightarrow> length r < length s"
  by (auto simp: expect_semi_def split: prod.splits bool.splits sum.splits
           dest!: test_semi_le get_char_lt)


lemma read_points_le: "read_points sf s = Inr (ps, r) \<Longrightarrow> length r \<le> length s"
proof (induction sf s arbitrary: ps r rule: read_points.induct)
  case (1 sf s)
  obtain b r0 where ts: "test_semi s = (b, r0)" by force
  have r0: "length r0 \<le> length s" using ts by (rule test_semi_le)
  show ?case
  proof (cases b)
    case True
    with ts "1.prems" have "r = r0" by (simp add: read_points.simps)
    with r0 show ?thesis by simp
  next
    case False
    with ts "1.prems" obtain rx r1 ry r2 ps' where
      a: "read_sinteger r0 = Inr (rx, r1)" and b: "read_sinteger r1 = Inr (ry, r2)"
      and c: "read_points sf r2 = Inr (ps', r)"
      by (simp add: read_points.simps [of sf s] split: sum.splits prod.splits)
    have "length r \<le> length r2"
      by (rule "1.IH" [OF ts [symmetric] _ a refl b refl c]) (simp add: False)
    with read_sinteger_lt [OF a] read_sinteger_lt [OF b] r0 show ?thesis by linarith
  qed
qed


lemma read_trans_step:
  assumes "read_trans sf t s = Inr (t', r)"
  shows "(test_semi s = (True, r) \<and> t' = t) \<or>
         (\<exists>t'' s''. length s'' < length s \<and> read_trans sf t'' s'' = Inr (t', r))"
proof -
  obtain b r0 where ts: "test_semi s = (b, r0)" by force
  have r0: "length r0 \<le> length s" using ts by (rule test_semi_le)
  show ?thesis
  proof (cases b)
    case True
    with ts assms show ?thesis by (simp add: read_trans.simps [of sf t s])
  next
    case False
    with ts assms obtain ct r1 where
      g: "get_char (skip_blanks r0) = Inr (ct, r1)"
      by (simp add: read_trans.simps [of sf t s] split: sum.splits prod.splits)
    have r1: "length r1 < length s"
      using get_char_lt [OF g] skip_blanks_le [of r0] r0 by linarith
    have eq: "read_trans sf t s =
      (if ct = CHR ''M'' then
                 (case get_char (skip_blanks r1) of
                    Inl e \<Rightarrow> Inl e
                  | Inr (ct2, r2) \<Rightarrow>
                      if ct2 = CHR ''X'' then read_trans sf (trans_mult trans_m90 t) r2
                      else if ct2 = CHR ''Y'' then read_trans sf (trans_mult trans_m0 t) r2
                      else Inl (InvalidMSpec, r2))
               else if ct = CHR ''T'' then
                 (case read_sinteger r1 of
                    Inl e \<Rightarrow> Inl e
                  | Inr (x, r2) \<Rightarrow>
                      (case read_sinteger r2 of
                         Inl e \<Rightarrow> Inl e
                       | Inr (y, r3) \<Rightarrow>
                           read_trans sf
                             (trans_mult (trans_disp (real_of_int (sint x) * sf, real_of_int (sint y) * sf)) t) r3))
               else if ct = CHR ''R'' then
                 (case read_sinteger r1 of
                    Inl e \<Rightarrow> Inl e
                  | Inr (x, r2) \<Rightarrow>
                      (case read_sinteger r2 of
                         Inl e \<Rightarrow> Inl e
                       | Inr (y, r3) \<Rightarrow>
                           if y \<noteq> 0 \<or> x \<noteq> 0
                           then read_trans sf
                                  (trans_mult
                                     (trans_rot (atan2 (real_of_int (sint y)) (real_of_int (sint x)) * 180 / pi)) t) r3
                           else read_trans sf t r3))
               else Inl (InvalidTransSpec, r1))"
      using ts False g by (simp add: read_trans.simps [of sf t s])
    consider (M) "ct = CHR ''M''" | (T) "ct = CHR ''T''" | (R) "ct = CHR ''R''"
      | (other) "ct \<noteq> CHR ''M''" "ct \<noteq> CHR ''T''" "ct \<noteq> CHR ''R''" by blast
    then show ?thesis
    proof cases
      case M
      with eq assms have "\<exists>ct2 r2 t''. get_char (skip_blanks r1) = Inr (ct2, r2)
          \<and> read_trans sf t'' r2 = Inr (t', r)"
        by (auto split: sum.splits if_splits)
      then obtain ct2 r2 t'' where g2: "get_char (skip_blanks r1) = Inr (ct2, r2)"
        and rt: "read_trans sf t'' r2 = Inr (t', r)" by blast
      have "length r2 < length s"
        using get_char_lt [OF g2] skip_blanks_le [of r1] r1 by linarith
      with rt show ?thesis by blast
    next
      case T
      with eq assms have "\<exists>x r2 y r3 t''. read_sinteger r1 = Inr (x, r2)
          \<and> read_sinteger r2 = Inr (y, r3) \<and> read_trans sf t'' r3 = Inr (t', r)"
        by (auto split: sum.splits if_splits)
      then obtain x r2 y r3 t'' where a: "read_sinteger r1 = Inr (x, r2)"
        and b: "read_sinteger r2 = Inr (y, r3)"
        and rt: "read_trans sf t'' r3 = Inr (t', r)" by blast
      have "length r3 < length s"
        using read_sinteger_lt [OF a] read_sinteger_lt [OF b] r1 by linarith
      with rt show ?thesis by blast
    next
      case R
      with eq assms have "\<exists>x r2 y r3 t''. read_sinteger r1 = Inr (x, r2)
          \<and> read_sinteger r2 = Inr (y, r3) \<and> read_trans sf t'' r3 = Inr (t', r)"
        by (auto split: sum.splits if_splits)
      then obtain x r2 y r3 t'' where a: "read_sinteger r1 = Inr (x, r2)"
        and b: "read_sinteger r2 = Inr (y, r3)"
        and rt: "read_trans sf t'' r3 = Inr (t', r)" by blast
      have "length r3 < length s"
        using read_sinteger_lt [OF a] read_sinteger_lt [OF b] r1 by linarith
      with rt show ?thesis by blast
    next
      case other
      with eq assms show ?thesis by simp
    qed
  qed
qed

lemma read_trans_le: "read_trans sf t s = Inr (t', r) \<Longrightarrow> length r \<le> length s"
proof (induction "length s" arbitrary: s t rule: less_induct)
  case less
  from read_trans_step [OF less.prems] show ?case
  proof
    assume "test_semi s = (True, r) \<and> t' = t"
    then show ?thesis by (auto dest: test_semi_le)
  next
    assume "\<exists>t'' s''. length s'' < length s \<and> read_trans sf t'' s'' = Inr (t', r)"
    then obtain t'' s'' where a: "length s'' < length s" and b: "read_trans sf t'' s'' = Inr (t', r)"
      by blast
    from less.hyps [OF a b] a show ?thesis by simp
  qed
qed


lemma lexr_int_lt: "lexr read_integer r = Inr (v, r') \<Longrightarrow> length (m_stream r') < length (m_stream r)"
  by (erule lexr_lt) (rule read_integer_lt)

lemma lexr_sint_lt: "lexr read_sinteger r = Inr (v, r') \<Longrightarrow> length (m_stream r') < length (m_stream r)"
  by (erule lexr_lt) (rule read_sinteger_lt)

lemma lexr_semi_lt: "lexr expect_semi r = Inr (v, r') \<Longrightarrow> length (m_stream r') < length (m_stream r)"
  by (erule lexr_lt) (rule expect_semi_lt)

lemma lexr_get_char_lt: "lexr get_char r = Inr (v, r') \<Longrightarrow> length (m_stream r') < length (m_stream r)"
  by (erule lexr_lt) (rule get_char_lt)

lemma lexr_points_le: "lexr (read_points sf) r = Inr (v, r') \<Longrightarrow> length (m_stream r') \<le> length (m_stream r)"
  by (erule lexr_le) (rule read_points_le)

lemma lexr_trans_le: "lexr (read_trans sf t) r = Inr (v, r') \<Longrightarrow> length (m_stream r') \<le> length (m_stream r)"
  by (erule lexr_le) (rule read_trans_le)

lemma read_name_le: "read_name s = (n, r) \<Longrightarrow> length r \<le> length s"
  using skip_blanks_le [of s] length_dropWhile_le [of is_name_char "skip_blanks s"]
  by (auto simp: read_name_def Let_def)

lemma stream_skip_le: "length (stream_skip s) \<le> length s"
  by (simp add: stream_skip_def length_dropWhile_le)

lemma read_quoted_le: "read_quoted q s = (b, r) \<Longrightarrow> length r \<le> length s"
  by (induction q s arbitrary: b r rule: read_quoted.induct)
     (auto split: if_splits prod.splits simp: le_SucI)

lemma read_string_le: "read_string s = (n, r) \<Longrightarrow> length r \<le> length s"
proof -
  assume a: "read_string s = (n, r)"
  have k: "length (stream_skip s) \<le> length s" by (rule stream_skip_le)
  show ?thesis
  proof (cases "stream_skip s")
    case Nil
    with a show ?thesis by (simp add: read_string_def)
  next
    case (Cons q r')
    show ?thesis
    proof (cases "q = CHR 0x22 \<or> q = CHR 0x27")
      case True
      obtain b r'' where rq: "read_quoted q r' = (b, r'')" by force
      from read_quoted_le [OF rq] have "length r'' \<le> length r'" .
      moreover have "r = (if r'' \<noteq> [] then tl r'' else r'')"
        using a Cons True rq by (auto simp: read_string_def)
      ultimately have "length r \<le> length r'" by (auto split: if_splits)
      with k Cons show ?thesis by simp
    next
      case False
      with a Cons have "r = dropWhile is_plain_string_char (stream_skip s)"
        by (auto simp: read_string_def)
      with k length_dropWhile_le [of is_plain_string_char "stream_skip s"] show ?thesis by simp
    qed
  qed
qed

lemma read_double_le: "read_double f s = (n, r) \<Longrightarrow> length r \<le> length s"
  using stream_skip_le [of s] length_dropWhile_le [of is_double_char "stream_skip s"]
  by (auto simp: read_double_def Let_def)

lemma lexp_name_le: "lexp read_name r = Inr (v, r') \<Longrightarrow> length (m_stream r') \<le> length (m_stream r)"
  by (erule lexp_le) (rule read_name_le)

lemma lexp_string_le: "lexp read_string r = Inr (v, r') \<Longrightarrow> length (m_stream r') \<le> length (m_stream r)"
  by (erule lexp_le) (rule read_string_le)

lemma lexp_double_le: "lexp (read_double f) r = Inr (v, r') \<Longrightarrow> length (m_stream r') \<le> length (m_stream r)"
  by (erule lexp_le) (rule read_double_le)

lemma read_opt_direction_le:
  "read_opt_direction r = Inr (v, r') \<Longrightarrow> length (m_stream r') \<le> length (m_stream r)"
  unfolding read_opt_direction_def
  by (auto split: prod.splits bool.splits elim!: rbind_InrE
           dest!: lexr_sint_lt test_semi_le)

lemma cmd_B_le: "cmd_B ci sf l r0 = Inr (l', r') \<Longrightarrow> length (m_stream r') \<le> length (m_stream r0)"
  unfolding cmd_B_def
  by (auto split: if_splits simp: lexs_def skip_to_end_le elim!: rbind_InrE
           dest!: lexr_int_lt lexr_sint_lt lexr_semi_lt read_opt_direction_le)

lemma cmd_P_le: "cmd_P ci sf l r0 = Inr (l', r') \<Longrightarrow> length (m_stream r') \<le> length (m_stream r0)"
  unfolding cmd_P_def
  by (auto split: if_splits simp: lexs_def skip_to_end_le elim!: rbind_InrE
           dest!: lexr_points_le lexr_semi_lt)

lemma cmd_R_le: "cmd_R opt ci sf l r0 = Inr (l', r') \<Longrightarrow> length (m_stream r') \<le> length (m_stream r0)"
  unfolding cmd_R_def
  by (auto split: if_splits simp: lexs_def skip_to_end_le elim!: rbind_InrE
           dest!: lexr_int_lt lexr_sint_lt lexr_semi_lt)

lemma cmd_W_le: "cmd_W opt ci sf l r0 = Inr (l', r') \<Longrightarrow> length (m_stream r') \<le> length (m_stream r0)"
  unfolding cmd_W_def
  by (auto split: if_splits simp: lexs_def skip_to_end_le elim!: rbind_InrE
           dest!: lexr_int_lt lexr_points_le lexr_semi_lt)

lemma select_layer_stream: "select_layer opt n r = (ly, r') \<Longrightarrow> m_stream r' = m_stream r"
  by (auto simp: select_layer_def split: option.splits if_splits)

lemma cmd_L_le: "cmd_L opt l r0 = Inr (l', r') \<Longrightarrow> length (m_stream r') \<le> length (m_stream r0)"
  unfolding cmd_L_def
  using skip_blanks_le [of "m_stream r0"]
  by (auto split: if_splits prod.splits simp: lexs_def elim!: rbind_InrE
           dest!: lexp_name_le lexr_semi_lt select_layer_stream)

lemma cell_for_id_stream: "cell_for_id opt n r = (c, r') \<Longrightarrow> m_stream r' = m_stream r"
  by (auto simp: cell_for_id_def add_cell_def new_cell_def split: option.splits)

lemma cmd_C_le: "cmd_C opt ci sf l r0 = Inr (l', r') \<Longrightarrow> length (m_stream r') \<le> length (m_stream r0)"
  unfolding cmd_C_def
  by (auto split: if_splits prod.splits elim!: rbind_InrE
           dest!: lexr_int_lt lexr_trans_le lexr_semi_lt cell_for_id_stream)


lemma read_opt_height_le:
  "read_opt_height opt r = Inr (v, r') \<Longrightarrow> length (m_stream r') \<le> length (m_stream r)"
  unfolding read_opt_height_def
  by (auto split: prod.splits bool.splits dest!: lexp_double_le test_semi_le)

lemma cmd_93_le: "cmd_93 l r0 = Inr (l', r') \<Longrightarrow> length (m_stream r') \<le> length (m_stream r0)"
  unfolding cmd_93_def
  by (auto elim!: rbind_InrE dest!: lexr_sint_lt)

lemma cmd_94_le: "cmd_94 opt ci sf l r0 = Inr (l', r') \<Longrightarrow> length (m_stream r') \<le> length (m_stream r0)"
  unfolding cmd_94_def
  by (auto split: if_splits elim!: rbind_InrE
           dest!: lexr_sint_lt lexp_string_le lexp_name_le read_opt_height_le)

lemma cmd_95_le: "cmd_95 ci sf l r0 = Inr (l', r') \<Longrightarrow> length (m_stream r') \<le> length (m_stream r0)"
  unfolding cmd_95_def
  by (auto split: if_splits elim!: rbind_InrE dest!: lexr_sint_lt lexp_string_le)

lemma cmd_9_le: "cmd_9 opt ci l r0 = Inr (l', r') \<Longrightarrow> length (m_stream r') \<le> length (m_stream r0)"
  unfolding cmd_9_def
  by (auto elim!: rbind_InrE dest!: lexp_string_le)

lemma lexs_tl_le: "length (m_stream (lexs tl r)) \<le> length (m_stream r)"
  by (simp add: lexs_def)

lemma cmd_digit_le:
  assumes "cmd_digit opt ci sf c l r0 = Inr (l', r')"
  shows "length (m_stream r') \<le> length (m_stream r0)"
proof -
  from assms obtain l1 r1 where
    a: "(if c = CHR ''9'' \<and> peek_char (m_stream r0) = CHR ''3'' then cmd_93 l (lexs tl r0)
         else if c = CHR ''9'' \<and> peek_char (m_stream r0) = CHR ''4'' then cmd_94 opt ci sf l (lexs tl r0)
         else if c = CHR ''9'' \<and> peek_char (m_stream r0) = CHR ''5'' then cmd_95 ci sf l (lexs tl r0)
         else if c = CHR ''9'' \<and> peek_char (m_stream r0) = CHR ''8''
           then rbind (lexr read_integer (lexs tl r0)) (\<lambda>pm r. Inr (l\<lparr>path_mode := pm\<rparr>, r))
         else if c = CHR ''9'' \<and> \<not> isdigit (peek_char (m_stream r0)) then cmd_9 opt ci l r0
         else Inr (l, r0)) = Inr (l1, r1)"
    and b: "r' = lexs skip_to_end r1"
    unfolding cmd_digit_def Let_def by (auto elim!: rbind_InrE)
  have "length (m_stream r1) \<le> length (m_stream r0)"
    using a lexs_tl_le [of r0]
    by (auto split: if_splits elim!: rbind_InrE
             dest!: cmd_93_le cmd_94_le cmd_95_le cmd_9_le lexr_int_lt)
  with b skip_to_end_le [of "m_stream r1"] show ?thesis by (simp add: lexs_def)
qed

lemma read_DS_header_le:
  "read_DS_header r = Inr (v, r') \<Longrightarrow> length (m_stream r') \<le> length (m_stream r)"
  unfolding read_DS_header_def
  by (auto split: prod.splits bool.splits elim!: rbind_InrE
           dest!: lexr_int_lt lexr_semi_lt test_semi_le)

lemma enter_DS_cases:
  "\<exists>o' c sf' r'. enter_DS opt sf n denom divider r = Enter o' c sf' r' \<and> m_stream r' = m_stream r"
  by (auto simp: enter_DS_def Let_def add_cell_def new_cell_def split: option.splits)

definition step_reader :: "step \<Rightarrow> reader" where
  "step_reader st = (case st of Continue l r \<Rightarrow> r | Stop l r \<Rightarrow> r | Fail e r \<Rightarrow> r | Enter o' c sf' r \<Rightarrow> r)"

definition step_ok :: "step \<Rightarrow> bool" where
  "step_ok st = (case st of Fail e r \<Rightarrow> False | _ \<Rightarrow> True)"

lemma to_step_ok: "step_ok (to_step x) \<Longrightarrow> \<exists>l r. x = Inr (l, r) \<and> step_reader (to_step x) = r"
  by (auto simp: to_step_def step_ok_def step_reader_def split: sum.splits)

lemma cmd_D_le:
  assumes "step_ok (cmd_D opt sf level l r0)"
  shows "length (m_stream (step_reader (cmd_D opt sf level l r0))) \<le> length (m_stream r0)"
proof -
  from assms obtain c r where g: "lexr get_char (lexs skip_blanks r0) = Inr (c, r)"
    by (auto simp: cmd_D_def step_ok_def split: sum.splits)
  have r: "length (m_stream r) < length (m_stream r0)"
    using lexr_get_char_lt [OF g] skip_blanks_le [of "m_stream r0"] by (simp add: lexs_def)
  consider (S) "c = CHR ''S''" | (F) "c = CHR ''F''" | (D) "c = CHR ''D''"
    | (other) "c \<noteq> CHR ''S''" "c \<noteq> CHR ''F''" "c \<noteq> CHR ''D''" by blast
  then show ?thesis
  proof cases
    case S
    with g assms obtain n denom divider r1 where h: "read_DS_header r = Inr ((n, denom, divider), r1)"
      and e: "cmd_D opt sf level l r0 = enter_DS opt sf n denom divider r1"
      by (auto simp: cmd_D_def step_ok_def split: sum.splits)
    from enter_DS_cases [of opt sf n denom divider r1] e read_DS_header_le [OF h] r
    show ?thesis by (auto simp: step_reader_def)
  next
    case F
    with g assms r skip_to_end_le [of "m_stream r"] show ?thesis
      by (auto simp: cmd_D_def step_ok_def step_reader_def lexs_def split: if_splits)
  next
    case D
    with g assms r show ?thesis
      using skip_to_end_le
      by (auto simp: cmd_D_def step_ok_def step_reader_def lexs_def split: sum.splits
               dest!: lexr_int_lt intro: order_trans [OF skip_to_end_le])
  next
    case other
    with g assms show ?thesis by (auto simp: cmd_D_def step_ok_def)
  qed
qed


lemma to_step_le:
  assumes "step_ok (to_step x)" and "\<And>l r. x = Inr (l, r) \<Longrightarrow> length (m_stream r) \<le> n"
  shows "length (m_stream (step_reader (to_step x))) \<le> n"
  using assms by (auto simp: to_step_def step_ok_def step_reader_def split: sum.splits)

lemma read_command_lt:
  assumes "step_ok (read_command opt ci sf level l r0)"
  shows "length (m_stream (step_reader (read_command opt ci sf level l r0))) < length (m_stream r0)"
proof -
  from assms obtain c r where g: "lexr get_char (lexs skip_blanks r0) = Inr (c, r)"
    by (auto simp: read_command_def step_ok_def split: sum.splits)
  have r: "length (m_stream r) < length (m_stream r0)"
    using lexr_get_char_lt [OF g] skip_blanks_le [of "m_stream r0"] by (simp add: lexs_def)
  have eq: "read_command opt ci sf level l r0 =
     (if c = CHR '';'' then Continue l r
          else if c = CHR ''('' then Continue l (lexs skip_comment r)
          else if c = CHR ''E'' then
            (if 0 < level then Fail EInsideCell r else Stop l (lexs skip_blanks r))
          else if c = CHR ''D'' then cmd_D opt sf level l r
          else if c = CHR ''C'' then to_step (cmd_C opt ci sf l r)
          else if c = CHR ''L'' then to_step (cmd_L opt l r)
          else if c = CHR ''B'' then to_step (cmd_B ci sf l r)
          else if c = CHR ''P'' then to_step (cmd_P ci sf l r)
          else if c = CHR ''R'' then to_step (cmd_R opt ci sf l r)
          else if c = CHR ''W'' then to_step (cmd_W opt ci sf l r)
          else if isdigit c then to_step (cmd_digit opt ci sf c l r)
          else Continue l (lexs skip_to_end r))"
    using g by (simp add: read_command_def)
  have "length (m_stream (step_reader (read_command opt ci sf level l r0))) \<le> length (m_stream r)"
    using assms unfolding eq
    by (auto simp: lexs_def skip_comment_def skip_comment_loop_le skip_blanks_le skip_to_end_le
                   step_reader_def [of "Continue _ _"] step_reader_def [of "Stop _ _"]
                   step_ok_def [of "Fail _ _"]
             split: if_splits
             intro!: cmd_D_le to_step_le
             dest: cmd_C_le cmd_L_le cmd_B_le cmd_P_le cmd_R_le cmd_W_le cmd_digit_le)
  with r show ?thesis by linarith
qed

subsection \<open>The loop of \<open>read_cell\<close>\<close>

text \<open>
  \<open>read_cell_loop\<close> is the \<open>while (true)\<close> loop of \<open>read_cell\<close>; it returns the local
  variables as they are when the loop is left by \<open>break\<close>. For a \<open>DS\<close> command it
  calls itself for the cell defined (the source calls \<open>read_cell\<close> and drops its result)
  and then swaps \<open>m_cellname\<close> and \<open>outer_cell\<close> back; an exception of the nested call
  passes through, and the swap is not reached.
\<close>

function read_cell_loop ::
  "options \<Rightarrow> nat \<Rightarrow> real \<Rightarrow> nat \<Rightarrow> locals \<Rightarrow> reader \<Rightarrow> locals rd" where
  "read_cell_loop opt ci sf level l r =
     (case read_command opt ci sf level l r of
        Continue l' r' \<Rightarrow> read_cell_loop opt ci sf level l' r'
      | Stop l' r' \<Rightarrow> Inr (l', r')
      | Fail e r' \<Rightarrow> Inl (e, r')
      | Enter outer_cell c sf' r' \<Rightarrow>
          (case read_cell_loop opt c sf' (Suc level) init_locals r' of
             Inl e \<Rightarrow> Inl e
           | Inr (l', r'') \<Rightarrow> read_cell_loop opt ci sf level l (r''\<lparr>m_cellname := outer_cell\<rparr>)))"
  by pat_completeness auto

lemma read_cell_loop_dom_le:
  "read_cell_loop_dom (opt, ci, sf, level, l, r) \<Longrightarrow>
   read_cell_loop opt ci sf level l r = Inr (l', r') \<Longrightarrow>
   length (m_stream r') \<le> length (m_stream r)"
proof (induction opt ci sf level l r arbitrary: l' r' rule: read_cell_loop.pinduct)
  case (1 opt ci sf level l r)
  note eq = read_cell_loop.psimps [OF "1.hyps"]
  show ?case
  proof (cases "read_command opt ci sf level l r")
    case (Continue l1 r1)
    have "length (m_stream r1) < length (m_stream r)"
      using read_command_lt [of opt ci sf level l r] Continue by (simp add: step_ok_def step_reader_def)
    moreover have "length (m_stream r') \<le> length (m_stream r1)"
      using "1.IH"(1) [OF Continue] "1.prems" Continue by (simp add: eq)
    ultimately show ?thesis by linarith
  next
    case (Stop l1 r1)
    have "length (m_stream r1) < length (m_stream r)"
      using read_command_lt [of opt ci sf level l r] Stop by (simp add: step_ok_def step_reader_def)
    with "1.prems" Stop show ?thesis by (simp add: eq)
  next
    case (Fail e r1)
    with "1.prems" show ?thesis by (simp add: eq)
  next
    case (Enter o' c sf' r1)
    have a: "length (m_stream r1) < length (m_stream r)"
      using read_command_lt [of opt ci sf level l r] Enter by (simp add: step_ok_def step_reader_def)
    from "1.prems" Enter obtain l2 r2 where
      n: "read_cell_loop opt c sf' (Suc level) init_locals r1 = Inr (l2, r2)"
      and k: "read_cell_loop opt ci sf level l (r2\<lparr>m_cellname := o'\<rparr>) = Inr (l', r')"
      by (auto simp: eq split: sum.splits)
    have b: "length (m_stream r2) \<le> length (m_stream r1)"
      by (rule "1.IH"(2) [OF Enter n])
    have "length (m_stream r') \<le> length (m_stream (r2\<lparr>m_cellname := o'\<rparr>))"
      by (rule "1.IH"(3) [OF Enter n refl k])
    with a b show ?thesis by simp
  qed
qed

termination read_cell_loop
proof (relation "measure (\<lambda>(opt, ci, sf, level, l, r). length (m_stream r))", goal_cases)
  case 1
  show ?case by simp
next
  case (2 opt ci sf level l r l' r')
  then show ?case
    using read_command_lt [of opt ci sf level l r] by (simp add: step_ok_def step_reader_def)
next
  case (3 opt ci sf level l r o' c sf' r')
  then show ?case
    using read_command_lt [of opt ci sf level l r] by (simp add: step_ok_def step_reader_def)
next
  case (4 opt ci sf level l r o' c sf' r1 x2 l2 r2)
  have "length (m_stream r1) < length (m_stream r)"
    using read_command_lt [of opt ci sf level l r] 4(1) by (simp add: step_ok_def step_reader_def)
  moreover have "length (m_stream r2) \<le> length (m_stream r1)"
    using read_cell_loop_dom_le [OF 4(4)] 4(2,3) by (cases x2) auto
  ultimately show ?case by simp
qed

declare read_cell_loop.simps [simp del]

text \<open>\<open>read_cell\<close>: the loop, started with fresh local variables, and the value
  returned after it.\<close>

definition read_cell :: "options \<Rightarrow> nat \<Rightarrow> real \<Rightarrow> nat \<Rightarrow> reader \<Rightarrow> bool rd" where
  "read_cell opt ci sf level r =
     (case read_cell_loop opt ci sf level init_locals r of
        Inl e \<Rightarrow> Inl e
      | Inr (l, r') \<Rightarrow> Inr (1 < insts l \<or> 0 < shapes l \<or> 0 < layer_specs l, r'))"

subsection \<open>Assigning layer numbers to the new layers\<close>

text \<open>
  The three loops at the end of \<open>do_read\<close> run over \<open>m_new_layers\<close> in the order of the
  names. The state of a pass is the set \<open>used_ld\<close>, the layout and the layer map; the
  first two passes return the entries they did not erase.
\<close>

type_synonym assign_state = "(32 word \<times> 32 word) set \<times> layout \<times> layer_map"

fun assign_plain :: "(string \<times> nat) list \<Rightarrow> assign_state \<Rightarrow> (string \<times> nat) list \<times> assign_state" where
  "assign_plain [] st = ([], st)"
| "assign_plain ((n, i) # es) (used, ly, lm) =
     (case extract_plain_layer n of
        Some l \<Rightarrow>
          if (l, 0) \<notin> used
          then assign_plain es
                 (insert (l, 0) used,
                  set_properties i \<lparr>lp_layer = l, lp_datatype = 0, lp_name = []\<rparr> ly,
                  lm_map \<lparr>lp_layer = l, lp_datatype = 0, lp_name = []\<rparr> i lm)
          else (case assign_plain es (used, ly, lm) of (kept, st) \<Rightarrow> ((n, i) # kept, st))
      | None \<Rightarrow> (case assign_plain es (used, ly, lm) of (kept, st) \<Rightarrow> ((n, i) # kept, st)))"

fun assign_ld :: "(string \<times> nat) list \<Rightarrow> assign_state \<Rightarrow> (string \<times> nat) list \<times> assign_state" where
  "assign_ld [] st = ([], st)"
| "assign_ld ((n, i) # es) (used, ly, lm) =
     (case extract_ld n of
        Some (l, d, t) \<Rightarrow>
          if (l, d) \<notin> used
          then assign_ld es
                 (insert (l, d) used,
                  set_properties i \<lparr>lp_layer = l, lp_datatype = d, lp_name = t\<rparr> ly,
                  lm_map \<lparr>lp_layer = l, lp_datatype = d, lp_name = t\<rparr> i lm)
          else (case assign_ld es (used, ly, lm) of (kept, st) \<Rightarrow> ((n, i) # kept, st))
      | None \<Rightarrow> (case assign_ld es (used, ly, lm) of (kept, st) \<Rightarrow> ((n, i) # kept, st)))"

fun assign_names :: "(string \<times> nat) list \<Rightarrow> layout \<times> layer_map \<Rightarrow> layout \<times> layer_map" where
  "assign_names [] st = st"
| "assign_names ((n, i) # es) (ly, lm) =
     assign_names es
       (set_properties i (default_props\<lparr>lp_name := n\<rparr>) ly,
        lm_map (default_props\<lparr>lp_name := n\<rparr>) i lm)"

definition used_ld_of :: "layout \<Rightarrow> (32 word \<times> 32 word) set" where
  "used_ld_of ly = (\<lambda>(i, p). (lp_layer p, lp_datatype p)) ` set (layers ly)"

definition assign_layers :: "reader \<Rightarrow> reader" where
  "assign_layers r =
     (if m_new_layers r = [] then r
      else
        (case assign_plain (m_new_layers r) (used_ld_of (lay r), lay r, m_layer_map r) of
           (k1, st1) \<Rightarrow>
             (case assign_ld k1 st1 of
                (k2, (used2, ly2, lm2)) \<Rightarrow>
                  (case assign_names k2 (ly2, lm2) of
                     (ly3, lm3) \<Rightarrow> r\<lparr>m_new_layers := k2, lay := ly3, m_layer_map := lm3\<rparr>))))"

subsection \<open>The driver\<close>

text \<open>
  \<open>do_read\<close>. The top cell is added without a name; the layout then gives it a name of
  its own choice, modelled as \<open>uniquify_cell_name\<close> of the empty name. Exceptions of
  the collaborators (\<open>tl::Exception\<close>) are not modelled.
\<close>

definition do_read :: "options \<Rightarrow> reader \<Rightarrow> (error \<times> reader) + reader" where
  "do_read opt r0 =
     (let sf = 0.01 / m_dbu opt;
          r1 = r0\<lparr>lay := (lay r0)\<lparr>lay_dbu := m_dbu opt\<rparr>,
                 m_cellname := ''{CIF top level}'',
                 m_next_layer_index := lm_next_index (m_layer_map r0),
                 m_new_layers := []\<rparr>
      in case add_cell opt None (lay r1) of
           (ci, ly) \<Rightarrow>
             (case read_cell opt ci sf 0 (r1\<lparr>lay := ly\<rparr>) of
                Inl e \<Rightarrow> Inl e
              | Inr (nonempty, r2) \<Rightarrow>
                  Inr (assign_layers
                         (lexs skip_blanks
                            ((if \<not> nonempty then r2\<lparr>lay := delete_cell ci (lay r2)\<rparr>
                              else r2\<lparr>lay := rename_cell ci (uniquify_cell_name opt (lay r2) ''CIF_TOP'') (lay r2)\<rparr>)
                             \<lparr>m_cellname := []\<rparr>)))))"


text \<open>The two halves of \<open>do_read\<close>, before and after the call of \<open>read_cell\<close>.\<close>

definition start_read :: "options \<Rightarrow> reader \<Rightarrow> reader" where
  "start_read opt r0 =
     (let r1 = r0\<lparr>lay := (lay r0)\<lparr>lay_dbu := m_dbu opt\<rparr>,
                 m_cellname := ''{CIF top level}'',
                 m_next_layer_index := lm_next_index (m_layer_map r0),
                 m_new_layers := []\<rparr>
      in r1\<lparr>lay := snd (add_cell opt None (lay r1))\<rparr>)"

definition finish_read :: "options \<Rightarrow> nat \<Rightarrow> bool \<Rightarrow> reader \<Rightarrow> reader" where
  "finish_read opt ci nonempty r2 =
     assign_layers
       (lexs skip_blanks
          ((if \<not> nonempty then r2\<lparr>lay := delete_cell ci (lay r2)\<rparr>
            else r2\<lparr>lay := rename_cell ci (uniquify_cell_name opt (lay r2) ''CIF_TOP'') (lay r2)\<rparr>)
           \<lparr>m_cellname := []\<rparr>))"

lemma do_read_eq:
  "do_read opt r =
     (case read_cell opt (next_cell (lay r)) (0.01 / m_dbu opt) 0 (start_read opt r) of
        Inl e \<Rightarrow> Inl e
      | Inr (nonempty, r2) \<Rightarrow> Inr (finish_read opt (next_cell (lay r)) nonempty r2))"
  by (simp add: do_read_def start_read_def finish_read_def Let_def add_cell_def new_cell_def split: sum.splits)

lemma start_read_stream: "start_read opt (r\<lparr>m_stream := s\<rparr>) = (start_read opt r)\<lparr>m_stream := s\<rparr>"
  by (cases r) (simp add: start_read_def Let_def add_cell_def new_cell_def)

lemma start_read_fields:
  "m_new_layers (start_read opt r) = []"
  "m_cells_by_id (start_read opt r) = m_cells_by_id r"
  "m_stream (start_read opt r) = m_stream r"
  "cells (lay (start_read opt r)) = (cells (lay r))(next_cell (lay r) \<mapsto>
      \<lparr>cell_name = uniquify_cell_name opt ((lay r)\<lparr>lay_dbu := m_dbu opt\<rparr>) [], cell_shapes = [], cell_insts = []\<rparr>)"
  "next_cell (lay (start_read opt r)) = Suc (next_cell (lay r))"
  by (simp_all add: start_read_def Let_def add_cell_def new_cell_def)

section \<open>A reader with the default options\<close>

text \<open>
  The options as \<open>CIFReaderOptions\<close> sets them by default (database unit 0.001, wire
  mode 0, other layers created), \<open>rounded\<close> rounding to the nearest integer with halves
  away from zero, a \<open>uniquify\<close> that leaves an unused name as it is, and an empty layer
  map and layout. They serve the examples below.
\<close>

definition default_options :: options where
  "default_options =
     \<lparr>m_dbu = 0.001, m_wire_mode = 0, m_create_layers = True,
      rounded = (\<lambda>v. if 0 < v then \<lfloor>v + 0.5\<rfloor> else \<lceil>v - 0.5\<rceil>),
      uniquify = (\<lambda>used n. if n \<in> used then n @ ''$1'' else n),
      from_string = (\<lambda>s. 0)\<rparr>"

definition empty_layer_map :: layer_map where
  "empty_layer_map =
     \<lparr>lm_logical_name = (\<lambda>n. None), lm_logical_props = (\<lambda>p. None),
      lm_mapping = (\<lambda>i. default_props), lm_next_index = 0\<rparr>"

definition empty_layout :: layout where
  "empty_layout = \<lparr>cells = Map.empty, next_cell = 0, layers = [], lay_dbu = 0.001\<rparr>"

definition new_reader :: "string \<Rightarrow> reader" where
  "new_reader s =
     \<lparr>m_stream = s, m_cellname = [], m_cells_by_id = Map.empty, m_new_layers = [],
      m_next_layer_index = 0, m_layer_map = empty_layer_map, lay = empty_layout\<rparr>"

text \<open>The equations that evaluate a run on a given input.\<close>

lemmas run_simps = do_read_def read_cell_def read_cell_loop.simps read_command_def lexr_def lexs_def lexp_def
  rbind_def get_char_def to_step_def cmd_B_def cmd_L_def cmd_D_def cmd_C_def cmd_P_def cmd_R_def cmd_W_def
  cmd_digit_def cmd_93_def cmd_94_def cmd_95_def cmd_9_def init_locals_def
  default_options_def empty_layer_map_def empty_layout_def new_reader_def default_props_def
  add_cell_def new_cell_def given_name_def delete_cell_def rename_cell_def insert_shape_def insert_inst_def insert_layer_def
  set_properties_def is_valid_layer_def uniquify_cell_name_def cell_names_def
  isdigit_def isupper_def islower_def isspace_def is_name_char_def Let_def skip_comment_def
  read_integer_def read_sinteger_def read_integer_digits_def int_max_div_10_def
  test_semi_def expect_semi_def read_name_def read_opt_direction_def peek_char_def
  select_layer_def resolve_layer_def extract_plain_layer_def extract_ld_def
  assign_layers_def used_ld_of_def lm_map_def box_shape_def wire_path_def
  read_points.simps read_trans.simps word_sless_alt word_sle_eq
  read_DS_header_def enter_DS_def cell_for_id_def make_inst_def to_string_def to_dec.simps digit_char_def

text \<open>What a run shows: the shapes of a cell after a read that returned, and the
  error together with \<open>m_cellname\<close> after a read that threw.\<close>

definition result_shapes :: "nat \<Rightarrow> (error \<times> reader) + reader \<Rightarrow> (nat \<times> shape) list option" where
  "result_shapes ci x = (case x of Inl e \<Rightarrow> None | Inr r \<Rightarrow> map_option cell_shapes (cells (lay r) ci))"

definition failure :: "(error \<times> reader) + 'a \<Rightarrow> (error \<times> string) option" where
  "failure x = (case x of Inl (e, r) \<Rightarrow> Some (e, m_cellname r) | Inr v \<Rightarrow> None)"

section \<open>Reading integers\<close>

text \<open>
  C3: a digit sequence whose value exceeds \<open>2^31 - 1\<close> must fail with the overflow error.
  The guard \<open>i > max / 10\<close> lets a tenth digit pass when the first nine are exactly
  \<open>214748364\<close>: the input \<open>2147483648\<close> is read without an error and wraps to
  \<open>-2^31\<close>. Where the error is raised (\<open>2147483650\<close>) the exception leaves the stream
  before the offending digit; the remaining digits are not consumed.
\<close>

theorem read_integer_overflow_undetected:
  "read_integer ''2147483648;'' = Inr (- 2147483648, '';'') \<and>
   sint (- 2147483648 :: 32 word) = - 2147483648 \<and>
   read_integer ''2147483650;'' = Inl (IntegerOverflow, ''0;'')"
  by (simp add: read_integer_def read_integer_digits_def isdigit_def int_max_div_10_def word_sless_alt)

section \<open>Comments\<close>

text \<open>
  A comment body with balanced parentheses: empty, a character that is not a
  parenthesis before a balanced body, or a balanced body in parentheses before a
  balanced body. \<open>nested d b\<close>: \<open>b\<close> is such a body, and its parentheses are nested at
  most \<open>d\<close> deep.
\<close>

inductive balanced :: "string \<Rightarrow> bool" where
  balanced_empty: "balanced []"
| balanced_char: "c \<noteq> CHR ''('' \<Longrightarrow> c \<noteq> CHR '')'' \<Longrightarrow> balanced s \<Longrightarrow> balanced (c # s)"
| balanced_parens: "balanced s \<Longrightarrow> balanced t \<Longrightarrow> balanced (CHR ''('' # s @ CHR '')'' # t)"

inductive nested :: "nat \<Rightarrow> string \<Rightarrow> bool" where
  nested_empty: "nested d []"
| nested_char: "c \<noteq> CHR ''('' \<Longrightarrow> c \<noteq> CHR '')'' \<Longrightarrow> nested d s \<Longrightarrow> nested d (c # s)"
| nested_parens: "nested d s \<Longrightarrow> nested (Suc d) t \<Longrightarrow> nested (Suc d) (CHR ''('' # s @ CHR '')'' # t)"

lemma nested_mono: "nested d b \<Longrightarrow> d \<le> e \<Longrightarrow> nested e b"
proof (induction d b arbitrary: e rule: nested.induct)
  case (nested_empty d)
  show ?case by (rule nested.nested_empty)
next
  case (nested_char c d s)
  then show ?case by (auto intro: nested.nested_char)
next
  case (nested_parens d s t)
  from nested_parens.prems obtain e' where e: "e = Suc e'" and le: "d \<le> e'" by (cases e) auto
  from nested_parens.IH(1) [OF le] nested_parens.IH(2) [of "Suc e'"] le show ?case
    unfolding e by (auto intro: nested.nested_parens)
qed

lemma nested_balanced: "nested d b \<Longrightarrow> balanced b"
  by (induction d b rule: nested.induct) (auto intro: balanced.intros)

lemma balanced_nested: "balanced b \<Longrightarrow> \<exists>d. nested d b"
proof (induction b rule: balanced.induct)
  case balanced_empty
  show ?case by (auto intro: nested.intros)
next
  case (balanced_char c s)
  then show ?case by (auto intro: nested.intros)
next
  case (balanced_parens s t)
  then obtain d e where d: "nested d s" and e: "nested e t" by blast
  have "nested (max d e) s" using d by (rule nested_mono) simp
  moreover have "nested (Suc (max d e)) t" using e by (rule nested_mono) simp
  ultimately have "nested (Suc (max d e)) (CHR ''('' # s @ CHR '')'' # t)" by (rule nested_parens)
  then show ?case by blast
qed

lemma sint_nesting_level:
  "0 \<le> sint (bl :: 32 word) \<Longrightarrow> sint bl + 1 < 2 ^ 31 \<Longrightarrow> sint (bl + 1) = sint bl + 1"
  by (simp add: sint_word_ariths signed_take_bit_int_eq_self)

lemma skip_comment_loop_nested:
  "nested d b \<Longrightarrow> 0 \<le> sint bl \<Longrightarrow> sint bl + int d < 2 ^ 31 \<Longrightarrow>
   skip_comment_loop bl (b @ r) = skip_comment_loop bl r"
proof (induction d b arbitrary: bl r rule: nested.induct)
  case (nested_empty d)
  then show ?case by simp
next
  case (nested_char c d s)
  then show ?case by simp
next
  case (nested_parens d s t)
  have s1: "sint (bl + 1) = sint bl + 1"
    using nested_parens.prems by (intro sint_nesting_level) auto
  have "skip_comment_loop bl ((CHR ''('' # s @ CHR '')'' # t) @ r)
        = skip_comment_loop (bl + 1) (s @ (CHR '')'' # t @ r))" by simp
  also have "\<dots> = skip_comment_loop (bl + 1) (CHR '')'' # t @ r)"
    using nested_parens.prems s1 by (intro nested_parens.IH(1)) auto
  also have "\<dots> = skip_comment_loop bl (t @ r)"
    using s1 nested_parens.prems by (simp add: word_sless_alt)
  also have "\<dots> = skip_comment_loop bl r"
    using nested_parens.prems by (intro nested_parens.IH(2)) auto
  finally show ?case .
qed

lemma skip_comment_nested:
  assumes "nested d b" and "d < 2 ^ 31"
  shows "skip_comment (b @ CHR '')'' # x) = x"
proof -
  have "skip_comment_loop 0 (b @ CHR '')'' # x) = skip_comment_loop 0 (CHR '')'' # x)"
    using assms by (intro skip_comment_loop_nested [of d]) auto
  then show ?thesis by (simp add: skip_comment_def)
qed

lemma read_command_comment:
  assumes "nested d b" and "d < 2 ^ 31"
  shows "read_command opt ci sf level l (r\<lparr>m_stream := CHR ''('' # b @ CHR '')'' # x\<rparr>)
         = Continue l (r\<lparr>m_stream := x\<rparr>)"
  using skip_comment_nested [OF assms, of x]
  by (simp add: read_command_def lexr_def lexs_def get_char_def isupper_def isdigit_def)

lemma read_cell_loop_comment:
  assumes "nested d b" and "d < 2 ^ 31"
  shows "read_cell_loop opt ci sf level l (r\<lparr>m_stream := CHR ''('' # b @ CHR '')'' # x\<rparr>)
         = read_cell_loop opt ci sf level l (r\<lparr>m_stream := x\<rparr>)"
  by (subst read_cell_loop.simps) (simp add: read_command_comment [OF assms])

text \<open>Parentheses nested \<open>k\<close> deep.\<close>

lemma parens_shift: "replicate k c @ c # s = c # replicate k c @ s"
  by (induction k) simp_all

lemma nested_replicate:
  "nested k (replicate k CHR ''('' @ replicate k CHR '')'')"
proof (induction k)
  case 0
  show ?case by (simp add: nested_empty)
next
  case (Suc k)
  have "nested (Suc k) (CHR ''('' # (replicate k CHR ''('' @ replicate k CHR '')'') @ CHR '')'' # [])"
    using Suc nested_empty by (rule nested_parens)
  moreover have "replicate (Suc k) CHR ''('' @ replicate (Suc k) CHR '')''
      = CHR ''('' # (replicate k CHR ''('' @ replicate k CHR '')'') @ CHR '')'' # []"
    using parens_shift [of k "CHR '')''" "[]"] by simp
  ultimately show ?case by simp
qed

lemma skip_comment_loop_open:
  "skip_comment_loop bl (replicate k CHR ''('' @ s) = skip_comment_loop (bl + of_nat k) s"
  by (induction k arbitrary: bl) (simp_all add: ac_simps)

lemma skip_to_end_close: "skip_to_end (replicate k CHR '')'' @ ''E'') = []"
  by (induction k) simp_all

text \<open>
  C8, as the claim has it, for parentheses nested to any depth: the nesting level \<open>bl\<close>
  is an \<open>int\<close>. After \<open>2^31\<close> opening parentheses it has wrapped to \<open>-2^31\<close>, the test
  \<open>bl > 0\<close> fails and the next closing parenthesis ends the comment, \<open>2^31\<close> closing
  parentheses early. The read then fails at the end of the stream, where the input
  without the comment is read without an error.
\<close>

theorem comment_nesting_overflows:
  "balanced (replicate (2 ^ 31) CHR ''('' @ replicate (2 ^ 31) CHR '')'') \<and>
   nested (2 ^ 31) (replicate (2 ^ 31) CHR ''('' @ replicate (2 ^ 31) CHR '')'') \<and>
   skip_comment ((replicate (2 ^ 31) CHR ''('' @ replicate (2 ^ 31) CHR '')'') @ CHR '')'' # ''E'')
     = replicate (2 ^ 31) CHR '')'' @ ''E'' \<and>
   failure (do_read default_options
      (new_reader (CHR ''('' # (replicate (2 ^ 31) CHR ''('' @ replicate (2 ^ 31) CHR '')'') @ CHR '')'' # ''E'')))
     = Some (UnexpectedEOF, ''{CIF top level}'') \<and>
   failure (do_read default_options (new_reader ''E'')) = None"
proof -
  define k :: nat where "k = 2 ^ 31"
  define body where "body = replicate k CHR ''('' @ replicate k CHR '')''"
  have n: "nested k body" unfolding body_def by (rule nested_replicate)
  then have b: "balanced body" by (rule nested_balanced)
  have w: "\<not> 0 <s (of_nat k :: 32 word)"
    by (simp add: k_def word_sless_alt)
  have kp: "k = Suc (k - 1)" by (simp add: k_def)
  have "skip_comment (body @ CHR '')'' # ''E'')
      = skip_comment_loop (of_nat k) (replicate k CHR '')'' @ CHR '')'' # ''E'')"
    by (simp add: skip_comment_def body_def skip_comment_loop_open)
  also have "replicate k CHR '')'' @ CHR '')'' # ''E'' = CHR '')'' # replicate k CHR '')'' @ ''E''"
    by (rule parens_shift)
  also have "skip_comment_loop (of_nat k) (CHR '')'' # replicate k CHR '')'' @ ''E'') = replicate k CHR '')'' @ ''E''"
    using w by simp
  finally have s: "skip_comment (body @ CHR '')'' # ''E'') = replicate k CHR '')'' @ ''E''" .
  let ?r = "new_reader (CHR ''('' # body @ CHR '')'' # ''E'')"
  have rest: "replicate k CHR '')'' @ ''E'' = CHR '')'' # replicate (k - 1) CHR '')'' @ ''E''"
    by (subst kp) simp
  have c1: "read_command opt ci sf level l (r\<lparr>m_stream := CHR ''('' # body @ CHR '')'' # ''E''\<rparr>)
      = Continue l (r\<lparr>m_stream := replicate k CHR '')'' @ ''E''\<rparr>)" for opt ci sf level l r
    using s by (simp add: read_command_def lexr_def lexs_def get_char_def isupper_def isdigit_def)
  have c2: "read_command opt ci sf level l (r\<lparr>m_stream := replicate k CHR '')'' @ ''E''\<rparr>)
      = Continue l (r\<lparr>m_stream := []\<rparr>)" for opt ci sf level l r
    unfolding rest
    by (simp add: read_command_def lexr_def lexs_def get_char_def isupper_def isdigit_def skip_to_end_close)
  have c3: "read_command opt ci sf level l (r\<lparr>m_stream := []\<rparr>) = Fail UnexpectedEOF (r\<lparr>m_stream := []\<rparr>)"
    for opt ci sf level l r
    by (simp add: read_command_def lexr_def lexs_def get_char_def)
  have loop: "read_cell_loop opt ci sf level l (r\<lparr>m_stream := CHR ''('' # body @ CHR '')'' # ''E''\<rparr>)
      = Inl (UnexpectedEOF, r\<lparr>m_stream := []\<rparr>)" for opt ci sf level l r
    apply (subst read_cell_loop.simps, simp add: c1)
    apply (subst read_cell_loop.simps, simp add: c2)
    apply (subst read_cell_loop.simps, simp add: c3)
    done
  have f1: "failure (do_read default_options ?r) = Some (UnexpectedEOF, ''{CIF top level}'')"
    using loop [where r = "start_read default_options (new_reader [])"]
    by (simp add: do_read_eq read_cell_def failure_def new_reader_def start_read_def Let_def
          add_cell_def new_cell_def)
  have f2: "failure (do_read default_options (new_reader ''E'')) = None"
    by (simp add: run_simps failure_def)
  from b n s f1 f2 show ?thesis unfolding body_def k_def by simp
qed

text \<open>
  C8: \<open>skip_comment\<close>, called after the opening parenthesis, stops right after the
  parenthesis that closes the comment when the parentheses inside are balanced and nested
  less than \<open>2^31\<close> deep, whatever the length of the comment, and such a comment put
  before an input \<open>x\<close> does not change what \<open>do_read\<close> returns: the same error or the
  same reader, layout included.
\<close>

theorem comment_skipped:
  assumes "nested d b" and "d < 2 ^ 31"
  shows "skip_comment (b @ CHR '')'' # x) = x \<and>
         do_read opt (r\<lparr>m_stream := CHR ''('' # b @ CHR '')'' # x\<rparr>) = do_read opt (r\<lparr>m_stream := x\<rparr>)"
proof
  show "skip_comment (b @ CHR '')'' # x) = x" by (rule skip_comment_nested [OF assms])
next
  define r1 where "r1 = r\<lparr>lay := (lay r)\<lparr>lay_dbu := m_dbu opt\<rparr>,
                 m_cellname := ''{CIF top level}'',
                 m_next_layer_index := lm_next_index (m_layer_map r),
                 m_new_layers := []\<rparr>"
  define top where "top = add_cell opt None (lay r1)"
  define finish :: "bool rd \<Rightarrow> (error \<times> reader) + reader" where "finish = (\<lambda>res. case res of
                Inl e \<Rightarrow> Inl e
              | Inr (nonempty, r2) \<Rightarrow>
                  Inr (assign_layers
                         (lexs skip_blanks
                            ((if \<not> nonempty then r2\<lparr>lay := delete_cell (fst top) (lay r2)\<rparr>
                              else r2\<lparr>lay := rename_cell (fst top) (uniquify_cell_name opt (lay r2) ''CIF_TOP'') (lay r2)\<rparr>)
                             \<lparr>m_cellname := []\<rparr>))))"
  have unfold: "do_read opt (r\<lparr>m_stream := s\<rparr>)
      = finish (read_cell opt (fst top) (0.01 / m_dbu opt) 0 (r1\<lparr>lay := snd top, m_stream := s\<rparr>))" for s
    by (cases r) (simp add: do_read_def Let_def finish_def top_def r1_def add_cell_def new_cell_def split: sum.splits)
  have "read_cell opt (fst top) (0.01 / m_dbu opt) 0 (r1\<lparr>lay := snd top, m_stream := CHR ''('' # b @ CHR '')'' # x\<rparr>)
      = read_cell opt (fst top) (0.01 / m_dbu opt) 0 (r1\<lparr>lay := snd top, m_stream := x\<rparr>)"
    using read_cell_loop_comment [OF assms, where r = "r1\<lparr>lay := snd top\<rparr>"]
    by (simp add: read_cell_def)
  then show "do_read opt (r\<lparr>m_stream := CHR ''('' # b @ CHR '')'' # x\<rparr>) = do_read opt (r\<lparr>m_stream := x\<rparr>)"
    by (simp only: unfold)
qed

theorem comment_skipped_witness:
  "nested 2 ''a(b(c))d'' \<and> (2 :: nat) < 2 ^ 31 \<and>
   skip_comment (''a(b(c))d'' @ CHR '')'' # ''E'') = ''E'' \<and>
   do_read default_options (new_reader ''E''\<lparr>m_stream := CHR ''('' # ''a(b(c))d'' @ CHR '')'' # ''E''\<rparr>)
     = do_read default_options (new_reader ''E''\<lparr>m_stream := ''E''\<rparr>)"
proof -
  have c: "nested 0 ''c''" by (rule nested_char [OF _ _ nested_empty]) simp_all
  have d: "nested (Suc (Suc 0)) ''d''" by (rule nested_char [OF _ _ nested_empty]) simp_all
  have "nested (Suc 0) (CHR ''('' # ''c'' @ CHR '')'' # [])" using c nested_empty by (rule nested_parens)
  then have "nested (Suc 0) (CHR ''b'' # CHR ''('' # ''c'' @ CHR '')'' # [])"
    by (rule nested_char [rotated 2]) simp_all
  then have "nested (Suc (Suc 0)) (CHR ''('' # (CHR ''b'' # CHR ''('' # ''c'' @ CHR '')'' # []) @ CHR '')'' # ''d'')"
    using d by (rule nested_parens)
  then have "nested (Suc (Suc 0)) (CHR ''a'' # CHR ''('' # (CHR ''b'' # CHR ''('' # ''c'' @ CHR '')'' # []) @ CHR '')'' # ''d'')"
    by (rule nested_char [rotated 2]) simp_all
  then have b: "nested 2 ''a(b(c))d''" by (simp add: numeral_2_eq_2)
  have n: "(2 :: nat) < 2 ^ 31" by simp
  from comment_skipped [OF b n, where x = "''E''" and opt = default_options and r = "new_reader ''E''"] b n
  show ?thesis by blast
qed


section \<open>Wires\<close>

text \<open>
  C1, as stated, at the default wire mode 0 and without a \<open>98\<close> command: the claim's
  enumeration makes the wire flush (extensions 0); the reader builds a square-ended
  path, with both extensions half the width (100 here).
\<close>

theorem wire_mode_zero_is_square:
  "m_wire_mode default_options = 0 \<and>
   result_shapes 0 (do_read default_options (new_reader ''L 1; W 20 0 0 100 0; E''))
     = Some [(0, Path [(0, 0), (1000, 0)] 200 100 100 False)]"
  by (simp add: run_simps result_shapes_def)

lemma wire_path_table:
  "\<exists>cap rnd.
     wire_path opt sf w pts pm = Path pts (rounded opt (sf * real_of_int (sint w))) cap cap rnd \<and>
     (pm = 0 \<longrightarrow> cap = 0 \<and> \<not> rnd) \<and>
     (pm = 1 \<longrightarrow> cap = rounded opt (sf * real_of_int (sint w) / 2) \<and> rnd) \<and>
     (0 \<le>s pm \<and> pm \<noteq> 0 \<and> pm \<noteq> 1 \<longrightarrow>
        cap = rounded opt (sf * real_of_int (sint w) / 2) \<and> \<not> rnd) \<and>
     (pm <s 0 \<and> m_wire_mode opt = 1 \<longrightarrow> cap = 0 \<and> \<not> rnd) \<and>
     (pm <s 0 \<and> m_wire_mode opt = 2 \<longrightarrow>
        cap = rounded opt (sf * real_of_int (sint w) / 2) \<and> rnd) \<and>
     (pm <s 0 \<and> m_wire_mode opt \<noteq> 1 \<and> m_wire_mode opt \<noteq> 2 \<longrightarrow>
        cap = rounded opt (sf * real_of_int (sint w) / 2) \<and> \<not> rnd)"
proof -
  have neg: "pm <s 0 \<Longrightarrow> pm \<noteq> 0 \<and> pm \<noteq> 1"
    by (auto simp: word_sless_alt)
  have nonneg: "0 \<le>s pm \<Longrightarrow> \<not> pm <s 0"
    by (auto simp: word_sless_alt word_sle_eq)
  consider (flush) "pm = 0 \<or> (pm <s 0 \<and> m_wire_mode opt = 1)"
    | (round) "\<not> (pm = 0 \<or> (pm <s 0 \<and> m_wire_mode opt = 1))" "pm = 1 \<or> (pm <s 0 \<and> m_wire_mode opt = 2)"
    | (square) "\<not> (pm = 0 \<or> (pm <s 0 \<and> m_wire_mode opt = 1))" "\<not> (pm = 1 \<or> (pm <s 0 \<and> m_wire_mode opt = 2))"
    by blast
  then show ?thesis
  proof cases
    case flush
    then have "wire_path opt sf w pts pm = Path pts (rounded opt (sf * real_of_int (sint w))) 0 0 False"
      by (auto simp: wire_path_def)
    moreover have "pm \<noteq> 1" "\<not> (0 \<le>s pm \<and> pm \<noteq> 0 \<and> pm \<noteq> 1)" "\<not> (pm <s 0 \<and> m_wire_mode opt = 2)"
       "\<not> (pm <s 0 \<and> m_wire_mode opt \<noteq> 1 \<and> m_wire_mode opt \<noteq> 2)"
      using flush neg nonneg by auto
    ultimately show ?thesis by blast
  next
    case round
    then have "wire_path opt sf w pts pm = Path pts (rounded opt (sf * real_of_int (sint w)))
        (rounded opt (sf * real_of_int (sint w) / 2)) (rounded opt (sf * real_of_int (sint w) / 2)) True"
      by (auto simp: wire_path_def)
    moreover have "pm \<noteq> 0" "\<not> (0 \<le>s pm \<and> pm \<noteq> 0 \<and> pm \<noteq> 1)" "\<not> (pm <s 0 \<and> m_wire_mode opt = 1)"
       "\<not> (pm <s 0 \<and> m_wire_mode opt \<noteq> 1 \<and> m_wire_mode opt \<noteq> 2)"
      using round neg nonneg by auto
    ultimately show ?thesis by blast
  next
    case square
    then have "wire_path opt sf w pts pm = Path pts (rounded opt (sf * real_of_int (sint w)))
        (rounded opt (sf * real_of_int (sint w) / 2)) (rounded opt (sf * real_of_int (sint w) / 2)) False"
      by (auto simp: wire_path_def)
    moreover have "pm \<noteq> 0" "pm \<noteq> 1" "\<not> (pm <s 0 \<and> m_wire_mode opt = 1)" "\<not> (pm <s 0 \<and> m_wire_mode opt = 2)"
      using square by auto
    ultimately show ?thesis by blast
  qed
qed

text \<open>
  C1, amended: for every \<open>W\<close> command read on a selected layer, the path inserted has
  the width \<open>rounded (sf * w)\<close> and the points read; its two extensions and round flag
  follow \<open>path_mode\<close> when it is not negative (0 flush, 1 round, anything else square)
  and otherwise \<open>m_wire_mode\<close> with 1 flush, 2 round and any other value, 0 included,
  square. Flush is extensions 0 and not round; round and square have extensions
  \<open>rounded (sf * w / 2)\<close>.
\<close>

theorem wire_end_caps:
  assumes "cmd_W opt ci sf l r0 = Inr (l', r')" and "0 \<le> layer l"
  shows "\<exists>w pts r1 r2 cap rnd.
     lexr read_integer r0 = Inr (w, r1) \<and> lexr (read_points sf) r1 = Inr (pts, r2) \<and>
     lay r' = insert_shape ci (nat (layer l))
                (Path pts (rounded opt (sf * real_of_int (sint w))) cap cap rnd) (lay r0) \<and>
     (path_mode l = 0 \<longrightarrow> cap = 0 \<and> \<not> rnd) \<and>
     (path_mode l = 1 \<longrightarrow> cap = rounded opt (sf * real_of_int (sint w) / 2) \<and> rnd) \<and>
     (0 \<le>s path_mode l \<and> path_mode l \<noteq> 0 \<and> path_mode l \<noteq> 1 \<longrightarrow>
        cap = rounded opt (sf * real_of_int (sint w) / 2) \<and> \<not> rnd) \<and>
     (path_mode l <s 0 \<and> m_wire_mode opt = 1 \<longrightarrow> cap = 0 \<and> \<not> rnd) \<and>
     (path_mode l <s 0 \<and> m_wire_mode opt = 2 \<longrightarrow>
        cap = rounded opt (sf * real_of_int (sint w) / 2) \<and> rnd) \<and>
     (path_mode l <s 0 \<and> m_wire_mode opt \<noteq> 1 \<and> m_wire_mode opt \<noteq> 2 \<longrightarrow>
        cap = rounded opt (sf * real_of_int (sint w) / 2) \<and> \<not> rnd)"
proof -
  from assms obtain w r1 pts r2 u where
    a: "lexr read_integer r0 = Inr (w, r1)" and b: "lexr (read_points sf) r1 = Inr (pts, r2)"
    and c: "lexr expect_semi
              (r2\<lparr>lay := insert_shape ci (nat (layer l)) (wire_path opt sf w pts (path_mode l)) (lay r2)\<rparr>)
            = Inr (u, r')"
    unfolding cmd_W_def by (auto elim!: rbind_InrE split: if_splits)
  have l1: "lay r1 = lay r0" using a by (auto simp: lexr_def split: sum.splits)
  have l2: "lay r2 = lay r1" using b by (auto simp: lexr_def split: sum.splits)
  have l3: "lay r' = insert_shape ci (nat (layer l)) (wire_path opt sf w pts (path_mode l)) (lay r0)"
    using c l1 l2 by (auto simp: lexr_def split: sum.splits)
  from wire_path_table [of opt sf w pts "path_mode l"] obtain cap rnd where
    t: "wire_path opt sf w pts (path_mode l) = Path pts (rounded opt (sf * real_of_int (sint w))) cap cap rnd \<and>
     (path_mode l = 0 \<longrightarrow> cap = 0 \<and> \<not> rnd) \<and>
     (path_mode l = 1 \<longrightarrow> cap = rounded opt (sf * real_of_int (sint w) / 2) \<and> rnd) \<and>
     (0 \<le>s path_mode l \<and> path_mode l \<noteq> 0 \<and> path_mode l \<noteq> 1 \<longrightarrow>
        cap = rounded opt (sf * real_of_int (sint w) / 2) \<and> \<not> rnd) \<and>
     (path_mode l <s 0 \<and> m_wire_mode opt = 1 \<longrightarrow> cap = 0 \<and> \<not> rnd) \<and>
     (path_mode l <s 0 \<and> m_wire_mode opt = 2 \<longrightarrow>
        cap = rounded opt (sf * real_of_int (sint w) / 2) \<and> rnd) \<and>
     (path_mode l <s 0 \<and> m_wire_mode opt \<noteq> 1 \<and> m_wire_mode opt \<noteq> 2 \<longrightarrow>
        cap = rounded opt (sf * real_of_int (sint w) / 2) \<and> \<not> rnd)"
    by blast
  show ?thesis
    apply (rule exI [of _ w], rule exI [of _ pts], rule exI [of _ r1], rule exI [of _ r2])
    apply (rule exI [of _ cap], rule exI [of _ rnd])
    using a b l3 t by simp
qed

theorem wire_end_caps_witness:
  "cmd_W default_options 0 10 (init_locals\<lparr>layer := 0\<rparr>) (new_reader '' 20 0 0 100 0; E'')
     = Inr (init_locals\<lparr>layer := 0, shapes := 1\<rparr>, new_reader '' E'') \<and>
   0 \<le> layer (init_locals\<lparr>layer := 0\<rparr>) \<and>
   (\<exists>w pts r1 r2 cap rnd.
     lexr read_integer (new_reader '' 20 0 0 100 0; E'') = Inr (w, r1) \<and>
     lexr (read_points 10) r1 = Inr (pts, r2) \<and>
     lay (new_reader '' E'') = insert_shape 0 (nat (layer (init_locals\<lparr>layer := 0\<rparr>)))
                (Path pts (rounded default_options (10 * real_of_int (sint w))) cap cap rnd)
                (lay (new_reader '' 20 0 0 100 0; E'')) \<and>
     cap = rounded default_options (10 * real_of_int (sint w) / 2) \<and> \<not> rnd)"
proof -
  have h: "cmd_W default_options 0 10 (init_locals\<lparr>layer := 0\<rparr>) (new_reader '' 20 0 0 100 0; E'')
     = Inr (init_locals\<lparr>layer := 0, shapes := 1\<rparr>, new_reader '' E'')"
    by (simp add: run_simps)
  have p: "0 \<le> layer (init_locals\<lparr>layer := 0\<rparr>)" by simp
  have pm: "path_mode (init_locals\<lparr>layer := 0\<rparr>) <s 0" 
    "m_wire_mode default_options \<noteq> 1" "m_wire_mode default_options \<noteq> 2"
    by (simp_all add: init_locals_def default_options_def word_sless_alt)
  from wire_end_caps [OF h p] pm h p show ?thesis by blast
qed

section \<open>Boxes\<close>

text \<open>
  C2: for a \<open>B\<close> command with a direction other than the positive x axis the corners
  should lie around the scaled center \<open>(x * sf, y * sf)\<close>. The source adds the scaled
  half-width and half-height vectors to the center \<open>(x, y)\<close> as read, without the scale
  factor that the axis-aligned branch applies. At scale 10, \<open>B 20 10 5 7 -1 0\<close> gives a
  rectangle around \<open>(5, 7)\<close>, where the direction \<open>1 0\<close> gives the box around \<open>(50, 70)\<close>.
  All values of the example are exact in double precision.
\<close>

theorem rotated_box_center_unscaled:
  "box_shape 10 20 10 5 7 (- 1) 0 = Polygon [(105, 57), (105, - 43), (- 95, - 43), (- 95, 57)] \<and>
   box_shape 10 20 10 5 7 1 0 = Box (- 50) 20 150 120 \<and>
   result_shapes 0 (do_read default_options (new_reader ''L 1; B 20 10 5 7 -1 0; E''))
     = Some [(0, Polygon [(105, 57), (105, - 43), (- 95, - 43), (- 95, 57)])]"
  by (simp add: run_simps result_shapes_def)

section \<open>The name of the current cell\<close>

text \<open>
  C6, as stated, on an input that ends inside the cell defined by \<open>DS 1\<close>: the exception
  leaves \<open>m_cellname\<close> at the name of the inner cell, not at the name it had before the
  \<open>DS\<close> command (in \<open>do_read\<close> that is \<open>{CIF top level}\<close>).
\<close>

theorem cellname_not_restored_on_error:
  "failure (do_read default_options (new_reader ''DS 1; L 1;'')) = Some (UnexpectedEOF, ''C1'')"
  by (simp add: run_simps failure_def)

lemma lexr_cellname: "lexr f r = Inr (v, r') \<Longrightarrow> m_cellname r' = m_cellname r"
  by (auto simp: lexr_def split: sum.splits)

lemma read_DS_header_cellname: "read_DS_header r = Inr (v, r') \<Longrightarrow> m_cellname r' = m_cellname r"
  unfolding read_DS_header_def
  by (auto split: prod.splits bool.splits elim!: rbind_InrE dest!: lexr_cellname)

lemma enter_DS_outer: "enter_DS opt sf n denom divider r = Enter o' c sf' r1 \<Longrightarrow> o' = m_cellname r"
  by (auto simp: enter_DS_def Let_def add_cell_def new_cell_def split: option.splits)

lemma to_step_not_Enter: "to_step x \<noteq> Enter o' c sf' r1"
  by (auto simp: to_step_def split: sum.splits)

lemma cmd_D_outer:
  assumes "cmd_D opt sf level l r = Enter o' c sf' r1"
  shows "o' = m_cellname r"
proof -
  from assms obtain ch ra where g: "lexr get_char (lexs skip_blanks r) = Inr (ch, ra)"
    by (auto simp: cmd_D_def split: sum.splits)
  have n: "m_cellname ra = m_cellname r" using lexr_cellname [OF g] by (simp add: lexs_def)
  from assms g obtain n' denom divider rb where
    h: "read_DS_header ra = Inr ((n', denom, divider), rb)"
    and e: "enter_DS opt sf n' denom divider rb = Enter o' c sf' r1"
    by (auto simp: cmd_D_def split: sum.splits if_splits)
  from enter_DS_outer [OF e] read_DS_header_cellname [OF h] n show ?thesis by simp
qed

lemma read_command_outer:
  assumes "read_command opt ci sf level l r = Enter o' c sf' r1"
  shows "o' = m_cellname r"
proof -
  from assms obtain ch ra where g: "lexr get_char (lexs skip_blanks r) = Inr (ch, ra)"
    by (auto simp: read_command_def split: sum.splits)
  have n: "m_cellname ra = m_cellname r" using lexr_cellname [OF g] by (simp add: lexs_def)
  from assms g have "cmd_D opt sf level l ra = Enter o' c sf' r1"
    by (auto simp: read_command_def to_step_not_Enter split: if_splits)
  from cmd_D_outer [OF this] n show ?thesis by simp
qed

text \<open>
  C6, amended: a \<open>DS\<close> command saves the current \<open>m_cellname\<close>; when the nested
  \<open>read_cell\<close> returns, the loop goes on in the reader the nested call left, with
  \<open>m_cellname\<close> set back to the saved name; when the nested call throws, the exception
  passes on with the reader as it is, and \<open>m_cellname\<close> is not set back.
\<close>

theorem cellname_restored_on_return:
  assumes "read_command opt ci sf level l r = Enter outer_cell c sf' r1"
  shows "outer_cell = m_cellname r \<and>
         (\<forall>b r2. read_cell opt c sf' (Suc level) r1 = Inr (b, r2) \<longrightarrow>
            read_cell_loop opt ci sf level l r
              = read_cell_loop opt ci sf level l (r2\<lparr>m_cellname := m_cellname r\<rparr>)) \<and>
         (\<forall>e r2. read_cell opt c sf' (Suc level) r1 = Inl (e, r2) \<longrightarrow>
            read_cell_loop opt ci sf level l r = Inl (e, r2))"
proof -
  have o: "outer_cell = m_cellname r" by (rule read_command_outer [OF assms])
  have eq: "read_cell_loop opt ci sf level l r =
     (case read_cell_loop opt c sf' (Suc level) init_locals r1 of
             Inl e \<Rightarrow> Inl e
           | Inr (l', r'') \<Rightarrow> read_cell_loop opt ci sf level l (r''\<lparr>m_cellname := outer_cell\<rparr>))"
    by (subst read_cell_loop.simps) (simp add: assms)
  show ?thesis
    using o by (auto simp: eq read_cell_def split: sum.splits)
qed

theorem cellname_restored_on_return_witness:
  "read_command default_options 0 10 0 init_locals ((new_reader ''DS 1; DF; E'')\<lparr>m_cellname := ''top''\<rparr>)
     = Enter ''top'' 0 10
         ((new_reader '' DF; E'')
            \<lparr>m_cellname := ''C1'', m_cells_by_id := [1 \<mapsto> 0],
              lay := empty_layout\<lparr>cells := [0 \<mapsto> \<lparr>cell_name = ''C1'', cell_shapes = [], cell_insts = []\<rparr>],
                                 next_cell := 1\<rparr>\<rparr>) \<and>
   read_cell default_options 0 10 (Suc 0)
         ((new_reader '' DF; E'')
            \<lparr>m_cellname := ''C1'', m_cells_by_id := [1 \<mapsto> 0],
              lay := empty_layout\<lparr>cells := [0 \<mapsto> \<lparr>cell_name = ''C1'', cell_shapes = [], cell_insts = []\<rparr>],
                                 next_cell := 1\<rparr>\<rparr>)
     = Inr (False, (new_reader '' E'')
            \<lparr>m_cellname := ''C1'', m_cells_by_id := [1 \<mapsto> 0],
              lay := empty_layout\<lparr>cells := [0 \<mapsto> \<lparr>cell_name = ''C1'', cell_shapes = [], cell_insts = []\<rparr>],
                                 next_cell := 1\<rparr>\<rparr>) \<and>
   read_cell_loop default_options 0 10 0 init_locals ((new_reader ''DS 1; DF; E'')\<lparr>m_cellname := ''top''\<rparr>)
     = read_cell_loop default_options 0 10 0 init_locals
         ((new_reader '' E'')
            \<lparr>m_cellname := ''C1'', m_cells_by_id := [1 \<mapsto> 0],
              lay := empty_layout\<lparr>cells := [0 \<mapsto> \<lparr>cell_name = ''C1'', cell_shapes = [], cell_insts = []\<rparr>],
                                 next_cell := 1\<rparr>,
              m_cellname := m_cellname ((new_reader ''DS 1; DF; E'')\<lparr>m_cellname := ''top''\<rparr>)\<rparr>)"
proof -
  let ?r = "(new_reader ''DS 1; DF; E'')\<lparr>m_cellname := ''top''\<rparr>"
  let ?r1 = "(new_reader '' DF; E'')
            \<lparr>m_cellname := ''C1'', m_cells_by_id := [1 \<mapsto> 0],
              lay := empty_layout\<lparr>cells := [0 \<mapsto> \<lparr>cell_name = ''C1'', cell_shapes = [], cell_insts = []\<rparr>],
                                 next_cell := 1\<rparr>\<rparr>"
  let ?r2 = "(new_reader '' E'')
            \<lparr>m_cellname := ''C1'', m_cells_by_id := [1 \<mapsto> 0],
              lay := empty_layout\<lparr>cells := [0 \<mapsto> \<lparr>cell_name = ''C1'', cell_shapes = [], cell_insts = []\<rparr>],
                                 next_cell := 1\<rparr>\<rparr>"
  have h: "read_command default_options 0 10 0 init_locals ?r = Enter ''top'' 0 10 ?r1"
    by (simp add: run_simps)
  have n: "read_cell default_options 0 10 (Suc 0) ?r1 = Inr (False, ?r2)"
    by (simp add: run_simps)
  from cellname_restored_on_return [OF h] n h show ?thesis by blast
qed


section \<open>Shape commands without a layer\<close>

text \<open>A blank in the sense of CIF, as \<open>skip_blanks\<close> tests it.\<close>

definition is_blank :: "char \<Rightarrow> bool" where
  "is_blank c = (\<not> (isupper c \<or> isdigit c \<or> c = CHR ''-'' \<or> c = CHR ''('' \<or> c = CHR '')'' \<or> c = CHR '';''))"

datatype shape_kind = Box_cmd | Polygon_cmd | Roundflash_cmd | Wire_cmd | Label_cmd | Boxlabel_cmd

fun kind_text :: "shape_kind \<Rightarrow> string" where
  "kind_text Box_cmd = ''B''"
| "kind_text Polygon_cmd = ''P''"
| "kind_text Roundflash_cmd = ''R''"
| "kind_text Wire_cmd = ''W''"
| "kind_text Label_cmd = ''94''"
| "kind_text Boxlabel_cmd = ''95''"

text \<open>The text of a shape command: blanks, the command, a tail without a semicolon, and
  the semicolon.\<close>

fun shape_command_text :: "string \<times> shape_kind \<times> string \<Rightarrow> string" where
  "shape_command_text (ws, k, t) = ws @ kind_text k @ t @ '';''"

fun well_formed_command :: "string \<times> shape_kind \<times> string \<Rightarrow> bool" where
  "well_formed_command (ws, k, t) = (list_all is_blank ws \<and> CHR '';'' \<notin> set t)"

lemma skip_blanks_blanks:
  "list_all is_blank ws \<Longrightarrow> \<not> is_blank c \<Longrightarrow> skip_blanks (ws @ c # s) = c # s"
  by (induction ws) (auto simp: is_blank_def)

lemma skip_to_end_tail: "CHR '';'' \<notin> set t \<Longrightarrow> skip_to_end (t @ CHR '';'' # x) = x"
  by (induction t) auto

lemma read_command_ignored_shape:
  assumes "layer l < 0" and "well_formed_command c"
  shows "read_command opt ci sf level l (r\<lparr>m_stream := shape_command_text c @ x\<rparr>)
         = Continue (l\<lparr>shapes := shapes l + 1\<rparr>) (r\<lparr>m_stream := x\<rparr>)"
proof -
  obtain ws k t where c: "c = (ws, k, t)" by (cases c) auto
  from assms c have ws: "list_all is_blank ws" and t: "CHR '';'' \<notin> set t" by auto
  have nb: "\<not> is_blank (hd (kind_text k))" by (cases k) (auto simp: is_blank_def isupper_def isdigit_def)
  have sb: "skip_blanks (ws @ kind_text k @ t @ CHR '';'' # x) = kind_text k @ t @ CHR '';'' # x"
    using skip_blanks_blanks [OF ws, of "hd (kind_text k)" "tl (kind_text k) @ t @ CHR '';'' # x"] nb
    by (cases k) auto
  show ?thesis
    using assms(1) skip_to_end_tail [OF t, of x] sb
    by (cases k)
       (simp_all add: c read_command_def lexr_def lexs_def get_char_def to_step_def
          cmd_B_def cmd_P_def cmd_R_def cmd_W_def cmd_digit_def cmd_94_def cmd_95_def rbind_def
          peek_char_def isdigit_def Let_def)
qed

lemma read_cell_loop_ignored_shapes:
  assumes "layer l < 0" and "list_all well_formed_command cs"
  shows "read_cell_loop opt ci sf level l (r\<lparr>m_stream := concat (map shape_command_text cs) @ x\<rparr>)
         = read_cell_loop opt ci sf level (l\<lparr>shapes := shapes l + length cs\<rparr>) (r\<lparr>m_stream := x\<rparr>)"
  using assms
proof (induction cs arbitrary: l)
  case Nil
  then show ?case by simp
next
  case (Cons c cs)
  have "read_cell_loop opt ci sf level l (r\<lparr>m_stream := concat (map shape_command_text (c # cs)) @ x\<rparr>)
      = read_cell_loop opt ci sf level (l\<lparr>shapes := shapes l + 1\<rparr>)
          (r\<lparr>m_stream := concat (map shape_command_text cs) @ x\<rparr>)"
    using read_command_ignored_shape [where l = l and c = c and x = "concat (map shape_command_text cs) @ x"] Cons.prems
    by (subst read_cell_loop.simps) simp
  also have "\<dots> = read_cell_loop opt ci sf level (l\<lparr>shapes := shapes l + 1 + length cs\<rparr>) (r\<lparr>m_stream := x\<rparr>)"
    using Cons.IH [of "l\<lparr>shapes := shapes l + 1\<rparr>"] Cons.prems by simp
  finally show ?case by simp
qed

lemma read_cell_loop_E:
  assumes "list_all is_blank ws"
  shows "read_cell_loop opt ci sf 0 l (r\<lparr>m_stream := ws @ CHR ''E'' # x\<rparr>) = Inr (l, r\<lparr>m_stream := skip_blanks x\<rparr>)"
  using skip_blanks_blanks [OF assms, of "CHR ''E''" x]
  by (subst read_cell_loop.simps)
     (simp add: read_command_def lexr_def lexs_def get_char_def is_blank_def isupper_def isdigit_def)

text \<open>
  C10: while the layer is negative (\<open>-2\<close>, no layer selected yet, or \<open>-1\<close>, a masked
  layer), each of the commands \<open>B\<close>, \<open>P\<close>, \<open>R\<close>, \<open>W\<close>, \<open>94\<close> and \<open>95\<close> adds one to
  \<open>shapes\<close> and has no other effect than consuming its text. So a file that consists
  of such commands only, followed by \<open>E\<close>, is read without an error, and the top cell
  stays in the layout, renamed to the unique name for \<open>CIF_TOP\<close>, with no shape and no
  instance in it.
\<close>

theorem ignored_shapes_keep_top_cell:
  assumes "list_all well_formed_command cs" and "layer l < 0"
  shows "read_cell_loop opt ci sf level l (r\<lparr>m_stream := concat (map shape_command_text cs) @ x\<rparr>)
           = read_cell_loop opt ci sf level (l\<lparr>shapes := shapes l + length cs\<rparr>) (r\<lparr>m_stream := x\<rparr>) \<and>
         (cs \<noteq> [] \<and> list_all is_blank ws \<longrightarrow>
          (\<exists>r'. do_read opt (r\<lparr>m_stream := concat (map shape_command_text cs) @ ws @ CHR ''E'' # x\<rparr>) = Inr r' \<and>
                cells (lay r') = (cells (lay r))(next_cell (lay r) \<mapsto>
                  \<lparr>cell_name = uniquify_cell_name opt (lay (start_read opt r)) ''CIF_TOP'',
                   cell_shapes = [], cell_insts = []\<rparr>)))"
proof (intro conjI impI)
  show "read_cell_loop opt ci sf level l (r\<lparr>m_stream := concat (map shape_command_text cs) @ x\<rparr>)
           = read_cell_loop opt ci sf level (l\<lparr>shapes := shapes l + length cs\<rparr>) (r\<lparr>m_stream := x\<rparr>)"
    by (rule read_cell_loop_ignored_shapes [OF assms(2,1)])
next
  assume a: "cs \<noteq> [] \<and> list_all is_blank ws"
  let ?s = "concat (map shape_command_text cs) @ ws @ CHR ''E'' # x"
  let ?r1 = "start_read opt r"
  have "read_cell_loop opt (next_cell (lay r)) (0.01 / m_dbu opt) 0 init_locals (?r1\<lparr>m_stream := ?s\<rparr>)
      = read_cell_loop opt (next_cell (lay r)) (0.01 / m_dbu opt) 0 (init_locals\<lparr>shapes := shapes init_locals + length cs\<rparr>)
          (?r1\<lparr>m_stream := ws @ CHR ''E'' # x\<rparr>)"
    by (rule read_cell_loop_ignored_shapes [OF _ assms(1)]) (simp add: init_locals_def)
  also have "\<dots> = Inr (init_locals\<lparr>shapes := shapes init_locals + length cs\<rparr>, ?r1\<lparr>m_stream := skip_blanks x\<rparr>)"
    using a by (intro read_cell_loop_E) simp
  finally have rc: "read_cell opt (next_cell (lay r)) (0.01 / m_dbu opt) 0 (?r1\<lparr>m_stream := ?s\<rparr>)
      = Inr (True, ?r1\<lparr>m_stream := skip_blanks x\<rparr>)"
    using a by (simp add: read_cell_def init_locals_def)
  have "do_read opt (r\<lparr>m_stream := ?s\<rparr>)
      = Inr (finish_read opt (next_cell (lay r)) True (?r1\<lparr>m_stream := skip_blanks x\<rparr>))"
    using rc by (simp add: do_read_eq start_read_stream)
  moreover have "cells (lay (finish_read opt (next_cell (lay r)) True (?r1\<lparr>m_stream := skip_blanks x\<rparr>)))
      = (cells (lay r))(next_cell (lay r) \<mapsto>
                  \<lparr>cell_name = uniquify_cell_name opt (lay ?r1) ''CIF_TOP'',
                   cell_shapes = [], cell_insts = []\<rparr>)"
    by (simp add: finish_read_def assign_layers_def lexs_def start_read_fields rename_cell_def)
  ultimately show "\<exists>r'. do_read opt (r\<lparr>m_stream := ?s\<rparr>) = Inr r' \<and>
                cells (lay r') = (cells (lay r))(next_cell (lay r) \<mapsto>
                  \<lparr>cell_name = uniquify_cell_name opt (lay ?r1) ''CIF_TOP'',
                   cell_shapes = [], cell_insts = []\<rparr>)"
    by blast
qed

theorem ignored_shapes_keep_top_cell_witness:
  "list_all well_formed_command [([], Box_cmd, '' 1 1 0 0''), ('' '', Label_cmd, '' foo 0 0'')] \<and>
   layer init_locals < 0 \<and>
   [([], Box_cmd, '' 1 1 0 0''), ('' '', Label_cmd, '' foo 0 0'')] \<noteq> [] \<and>
   list_all is_blank '' '' \<and>
   (\<exists>r'. do_read default_options (new_reader ''B 1 1 0 0; 94 foo 0 0; E'') = Inr r' \<and>
         cells (lay r') = [0 \<mapsto> \<lparr>cell_name = ''CIF_TOP'', cell_shapes = [], cell_insts = []\<rparr>])"
proof -
  let ?cs = "[([], Box_cmd, '' 1 1 0 0''), ('' '', Label_cmd, '' foo 0 0'')]"
  have h1: "list_all well_formed_command ?cs"
    by (simp add: is_blank_def isupper_def isdigit_def)
  have h2: "layer init_locals < 0" by (simp add: init_locals_def)
  have h3: "?cs \<noteq> [] \<and> list_all is_blank '' ''"
    by (simp add: is_blank_def isupper_def isdigit_def)
  have s: "(new_reader [])\<lparr>m_stream := concat (map shape_command_text ?cs) @ '' '' @ CHR ''E'' # []\<rparr>
      = new_reader ''B 1 1 0 0; 94 foo 0 0; E''"
    by (simp add: new_reader_def)
  have n: "uniquify_cell_name default_options (lay (start_read default_options (new_reader []))) ''CIF_TOP'' = ''CIF_TOP''"
    by (simp add: uniquify_cell_name_def cell_names_def start_read_fields default_options_def
          new_reader_def empty_layout_def)
  have c: "(cells (lay (new_reader [])))(next_cell (lay (new_reader [])) \<mapsto>
                  \<lparr>cell_name = ''CIF_TOP'', cell_shapes = [], cell_insts = []\<rparr>)
      = [0 \<mapsto> \<lparr>cell_name = ''CIF_TOP'', cell_shapes = [], cell_insts = []\<rparr>]"
    by (simp add: new_reader_def empty_layout_def)
  from ignored_shapes_keep_top_cell [OF h1 h2, where opt = default_options and r = "new_reader []"
      and ws = "'' ''" and x = "[]"] h3
  have "\<exists>r'. do_read default_options (new_reader ''B 1 1 0 0; 94 foo 0 0; E'') = Inr r' \<and>
         cells (lay r') = [0 \<mapsto> \<lparr>cell_name = ''CIF_TOP'', cell_shapes = [], cell_insts = []\<rparr>]"
    unfolding s n c by blast
  with h1 h2 h3 show ?thesis by blast
qed


section \<open>Cells and cell ids\<close>

text \<open>
  \<open>frame ci r r'\<close>: from \<open>r\<close> to \<open>r'\<close> the table of cell ids, the set of cells and
  the next cell index are the same, and no cell but \<open>ci\<close> has changed.
\<close>

definition frame :: "nat \<Rightarrow> reader \<Rightarrow> reader \<Rightarrow> bool" where
  "frame ci r r' =
     (m_cells_by_id r' = m_cells_by_id r \<and> next_cell (lay r') = next_cell (lay r) \<and>
      dom (cells (lay r')) = dom (cells (lay r)) \<and>
      (\<forall>c. c \<noteq> ci \<longrightarrow> cells (lay r') c = cells (lay r) c))"



lemma lexr_fields:
  "lexr f r = Inr (v, r') \<Longrightarrow>
   lay r' = lay r \<and> m_cells_by_id r' = m_cells_by_id r \<and> m_new_layers r' = m_new_layers r \<and>
   m_layer_map r' = m_layer_map r \<and> m_next_layer_index r' = m_next_layer_index r \<and>
   m_cellname r' = m_cellname r"
  by (auto simp: lexr_def split: sum.splits)

lemma lexp_fields:
  "lexp f r = Inr (v, r') \<Longrightarrow>
   lay r' = lay r \<and> m_cells_by_id r' = m_cells_by_id r \<and> m_new_layers r' = m_new_layers r \<and>
   m_layer_map r' = m_layer_map r \<and> m_next_layer_index r' = m_next_layer_index r \<and>
   m_cellname r' = m_cellname r"
  by (auto simp: lexp_def split: prod.splits)




lemma insert_shape_frame: "frame ci r (r\<lparr>lay := insert_shape ci ly sh (lay r)\<rparr>)"
  by (auto simp: frame_def insert_shape_def split: option.splits)


lemma rename_cell_frame: "frame ci r (r\<lparr>m_cellname := n, lay := rename_cell ci n' (lay r)\<rparr>)"
  by (auto simp: frame_def rename_cell_def split: option.splits)



lemma read_opt_direction_frame: "read_opt_direction r = Inr (v, r') \<Longrightarrow> frame ci r r'"
  unfolding read_opt_direction_def
  by (auto split: prod.splits bool.splits elim!: rbind_InrE dest!: lexr_fields simp: frame_def)







































section \<open>The commands of a run\<close>

text \<open>
  The command at the head of a stream, read off its characters: a shape command (\<open>B\<close>,
  \<open>P\<close>, \<open>R\<close>, \<open>W\<close> and the labels \<open>94\<close> and \<open>95\<close>, the commands counted in \<open>shapes\<close>), an
  \<open>L\<close> command, \<open>C\<close> with its cell id, \<open>DS\<close> with its cell id, or anything else.
\<close>

datatype command = Shape_cmd | Layer_cmd | Call_cmd "32 word" | Define_cmd "32 word" | Other_cmd

definition command_at :: "string \<Rightarrow> command" where
  "command_at s =
     (case skip_blanks s of
        [] \<Rightarrow> Other_cmd
      | c # t \<Rightarrow>
          if c = CHR ''B'' \<or> c = CHR ''P'' \<or> c = CHR ''R'' \<or> c = CHR ''W'' then Shape_cmd
          else if c = CHR ''9'' \<and> (peek_char t = CHR ''4'' \<or> peek_char t = CHR ''5'') then Shape_cmd
          else if c = CHR ''L'' then Layer_cmd
          else if c = CHR ''C'' then
            (case read_integer t of Inr (n, u) \<Rightarrow> Call_cmd n | Inl e \<Rightarrow> Other_cmd)
          else if c = CHR ''D'' then
            (case skip_blanks t of
               [] \<Rightarrow> Other_cmd
             | d # u \<Rightarrow>
                 if d = CHR ''S''
                 then (case read_integer u of Inr (n, v) \<Rightarrow> Define_cmd n | Inl e \<Rightarrow> Other_cmd)
                 else Other_cmd)
          else Other_cmd)"

text \<open>
  \<open>same_layers r r'\<close>: the new layers and the next layer index are the same in \<open>r\<close> and
  \<open>r'\<close>. \<open>layers_inv r\<close>: the layer indices of the new layers are pairwise different and
  below the next layer index.
\<close>

definition same_layers :: "reader \<Rightarrow> reader \<Rightarrow> bool" where
  "same_layers r r' =
     (m_new_layers r' = m_new_layers r \<and> m_next_layer_index r' = m_next_layer_index r)"

definition layers_inv :: "reader \<Rightarrow> bool" where
  "layers_inv r =
     (distinct (map snd (m_new_layers r)) \<and>
      (\<forall>e \<in> set (m_new_layers r). snd e < m_next_layer_index r))"

lemma same_layers_refl: "same_layers r r"
  by (simp add: same_layers_def)

lemma same_layers_trans: "same_layers a b \<Longrightarrow> same_layers b c \<Longrightarrow> same_layers a c"
  by (simp add: same_layers_def)

lemma same_layers_inv: "same_layers a b \<Longrightarrow> layers_inv a \<Longrightarrow> layers_inv b"
  by (simp add: same_layers_def layers_inv_def)

lemma lexr_same_layers: "lexr f r = Inr (v, r') \<Longrightarrow> same_layers r r'"
  by (auto simp: same_layers_def dest: lexr_fields)

lemma lexp_same_layers: "lexp f r = Inr (v, r') \<Longrightarrow> same_layers r r'"
  by (auto simp: same_layers_def dest: lexp_fields)

lemma lexs_same_layers: "same_layers r (lexs f r)"
  by (simp add: same_layers_def lexs_def)

lemma same_layers_lexs: "same_layers r r' \<Longrightarrow> same_layers r (lexs f r')"
  by (simp add: same_layers_def lexs_def)

lemma cmd_B_counts:
  "cmd_B ci sf l r0 = Inr (l', r') \<Longrightarrow>
   shapes l' = Suc (shapes l) \<and> layer_specs l' = layer_specs l \<and> same_layers r0 r'"
  unfolding cmd_B_def
  by (auto split: if_splits elim!: rbind_InrE dest!: lexr_fields
           simp: same_layers_def lexs_def read_opt_direction_def split: option.splits prod.splits bool.splits)

lemma cmd_P_counts:
  "cmd_P ci sf l r0 = Inr (l', r') \<Longrightarrow>
   shapes l' = Suc (shapes l) \<and> layer_specs l' = layer_specs l \<and> same_layers r0 r'"
  unfolding cmd_P_def
  by (auto split: if_splits elim!: rbind_InrE dest!: lexr_fields simp: same_layers_def lexs_def)

lemma cmd_R_counts:
  "cmd_R opt ci sf l r0 = Inr (l', r') \<Longrightarrow>
   shapes l' = Suc (shapes l) \<and> layer_specs l' = layer_specs l \<and> same_layers r0 r'"
  unfolding cmd_R_def
  by (auto split: if_splits elim!: rbind_InrE dest!: lexr_fields simp: same_layers_def lexs_def)

lemma cmd_W_counts:
  "cmd_W opt ci sf l r0 = Inr (l', r') \<Longrightarrow>
   shapes l' = Suc (shapes l) \<and> layer_specs l' = layer_specs l \<and> same_layers r0 r'"
  unfolding cmd_W_def
  by (auto split: if_splits elim!: rbind_InrE dest!: lexr_fields simp: same_layers_def lexs_def)

lemma read_opt_height_layers:
  "read_opt_height opt r = Inr (v, r') \<Longrightarrow>
   m_new_layers r' = m_new_layers r \<and> m_next_layer_index r' = m_next_layer_index r"
  unfolding read_opt_height_def
  by (auto split: prod.splits bool.splits dest!: lexp_fields)

lemma cmd_94_counts:
  "cmd_94 opt ci sf l r0 = Inr (l', r') \<Longrightarrow>
   shapes l' = Suc (shapes l) \<and> layer_specs l' = layer_specs l \<and> same_layers r0 r'"
  unfolding cmd_94_def
  by (auto split: if_splits elim!: rbind_InrE dest!: lexr_fields lexp_fields read_opt_height_layers
           simp: same_layers_def)

lemma cmd_95_counts:
  "cmd_95 ci sf l r0 = Inr (l', r') \<Longrightarrow>
   shapes l' = Suc (shapes l) \<and> layer_specs l' = layer_specs l \<and> same_layers r0 r'"
  unfolding cmd_95_def
  by (auto split: if_splits elim!: rbind_InrE dest!: lexr_fields lexp_fields simp: same_layers_def)

lemma cmd_93_counts:
  "cmd_93 l r0 = Inr (l', r') \<Longrightarrow>
   shapes l' = shapes l \<and> layer_specs l' = layer_specs l \<and> same_layers r0 r'"
  unfolding cmd_93_def
  by (auto elim!: rbind_InrE dest!: lexr_fields simp: same_layers_def)

lemma cmd_9_counts:
  "cmd_9 opt ci l r0 = Inr (l', r') \<Longrightarrow>
   shapes l' = shapes l \<and> layer_specs l' = layer_specs l \<and> same_layers r0 r'"
  unfolding cmd_9_def
  by (auto elim!: rbind_InrE dest!: lexp_fields simp: same_layers_def)

lemma cmd_digit_counts:
  assumes "cmd_digit opt ci sf c l r0 = Inr (l', r')"
  shows "shapes l' =
           (if c = CHR ''9'' \<and> (peek_char (m_stream r0) = CHR ''4'' \<or> peek_char (m_stream r0) = CHR ''5'')
            then Suc (shapes l) else shapes l) \<and>
         layer_specs l' = layer_specs l \<and> same_layers r0 r'"
proof -
  from assms obtain r1 where
    a: "(if c = CHR ''9'' \<and> peek_char (m_stream r0) = CHR ''3'' then cmd_93 l (lexs tl r0)
         else if c = CHR ''9'' \<and> peek_char (m_stream r0) = CHR ''4'' then cmd_94 opt ci sf l (lexs tl r0)
         else if c = CHR ''9'' \<and> peek_char (m_stream r0) = CHR ''5'' then cmd_95 ci sf l (lexs tl r0)
         else if c = CHR ''9'' \<and> peek_char (m_stream r0) = CHR ''8''
           then rbind (lexr read_integer (lexs tl r0)) (\<lambda>pm r. Inr (l\<lparr>path_mode := pm\<rparr>, r))
         else if c = CHR ''9'' \<and> \<not> isdigit (peek_char (m_stream r0)) then cmd_9 opt ci l r0
         else Inr (l, r0)) = Inr (l', r1)"
    and b: "r' = lexs skip_to_end r1"
    unfolding cmd_digit_def Let_def by (auto elim!: rbind_InrE)
  have t: "same_layers r0 (lexs tl r0)" by (rule lexs_same_layers)
  have "shapes l' =
           (if c = CHR ''9'' \<and> (peek_char (m_stream r0) = CHR ''4'' \<or> peek_char (m_stream r0) = CHR ''5'')
            then Suc (shapes l) else shapes l) \<and>
         layer_specs l' = layer_specs l \<and> same_layers r0 r1"
    using a t
    by (auto split: if_splits elim!: rbind_InrE
             dest!: cmd_93_counts cmd_94_counts cmd_95_counts cmd_9_counts lexr_same_layers
             simp: isdigit_def
             intro: same_layers_trans same_layers_refl)
  with b show ?thesis by (auto intro: same_layers_lexs)
qed

lemma cell_for_id_layers: "cell_for_id opt n r = (c, r') \<Longrightarrow> same_layers r r'"
  by (auto simp: cell_for_id_def add_cell_def new_cell_def same_layers_def split: option.splits)

lemma cmd_C_counts:
  "cmd_C opt ci sf l r0 = Inr (l', r') \<Longrightarrow>
   shapes l' = shapes l \<and> layer_specs l' = layer_specs l \<and> same_layers r0 r'"
  unfolding cmd_C_def
  by (auto split: prod.splits elim!: rbind_InrE dest!: lexr_fields cell_for_id_layers
           simp: same_layers_def)

text \<open>The \<open>L\<close> command: a layer created gets the next layer index.\<close>

lemma select_layer_inv:
  assumes "select_layer opt n r = (ly, r')" and "layers_inv r"
  shows "layers_inv r'"
proof -
  have "layers_inv (r\<lparr>m_next_layer_index := Suc (m_next_layer_index r),
                     lay := insert_layer (m_next_layer_index r) default_props (lay r),
                     m_new_layers := insort_key fst (n, m_next_layer_index r) (m_new_layers r)\<rparr>)"
    using assms(2) by (auto simp: layers_inv_def distinct_insort set_insort_key distinct_map
        inj_on_def less_Suc_eq)
  moreover have "layers_inv (r\<lparr>lay := y\<rparr>)" for y
    using assms(2) by (simp add: layers_inv_def)
  moreover from assms(1) have "r' = r \<or> (\<exists>y. r' = r\<lparr>lay := y\<rparr>) \<or>
      r' = r\<lparr>m_next_layer_index := Suc (m_next_layer_index r),
                     lay := insert_layer (m_next_layer_index r) default_props (lay r),
                     m_new_layers := insort_key fst (n, m_next_layer_index r) (m_new_layers r)\<rparr>"
    by (auto simp: select_layer_def split: option.splits if_splits)
  ultimately show ?thesis using assms(2) by auto
qed

lemma cmd_L_counts:
  assumes "cmd_L opt l r0 = Inr (l', r')"
  shows "layer_specs l' = Suc (layer_specs l) \<and> shapes l' = shapes l \<and>
         (layers_inv r0 \<longrightarrow> layers_inv r')"
proof -
  from assms obtain n r1 ly r2 u where
    b: "lexp read_name (lexs skip_blanks r0) = Inr (n, r1)"
    and c: "select_layer opt n r1 = (ly, r2)"
    and d: "lexr expect_semi r2 = Inr (u, r')"
    and e: "l' = l\<lparr>layer_specs := layer_specs l + 1, layer := ly\<rparr>"
    unfolding cmd_L_def by (auto elim!: rbind_InrE split: if_splits prod.splits)
  have "same_layers r0 r1" using lexp_same_layers [OF b] by (simp add: same_layers_def lexs_def)
  with select_layer_inv [OF c] lexr_same_layers [OF d] have "layers_inv r0 \<longrightarrow> layers_inv r'"
    by (blast intro: same_layers_inv)
  with e show ?thesis by simp
qed


section \<open>The empty top cell\<close>












section \<open>Cell instances\<close>

lemma read_trans_single_T:
  assumes "test_semi s = (False, s1)" and "get_char (skip_blanks s1) = Inr (CHR ''T'', s2)"
    and "read_sinteger s2 = Inr (x, s3)" and "read_sinteger s3 = Inr (y, s4)"
    and "test_semi s4 = (True, s5)"
  shows "read_trans sf trans_unit s
         = Inr (trans_disp (real_of_int (sint x) * sf, real_of_int (sint y) * sf), s5)"
proof -
  have "read_trans sf trans_unit s
      = read_trans sf (trans_mult (trans_disp (real_of_int (sint x) * sf, real_of_int (sint y) * sf)) trans_unit) s4"
    using assms(1-4) by (subst read_trans.simps) simp
  also have "\<dots> = Inr (trans_mult (trans_disp (real_of_int (sint x) * sf, real_of_int (sint y) * sf)) trans_unit, s5)"
    using assms(5) by (subst read_trans.simps) simp
  also have "trans_mult (trans_disp (real_of_int (sint x) * sf, real_of_int (sint y) * sf)) trans_unit
      = trans_disp (real_of_int (sint x) * sf, real_of_int (sint y) * sf)"
    by (simp add: trans_mult_def trans_disp_def trans_unit_def trans_apply_vec_def)
  finally show ?thesis .
qed

lemma trans_disp_simple: "is_ortho (trans_disp u) \<and> \<not> is_mag (trans_disp u)"
  by (simp add: is_ortho_def is_mag_def trans_disp_def trans_eps_def)

text \<open>
  C9: a \<open>C\<close> command that returns has inserted, into the current cell, an instance of
  the cell its id stands for, with the transformation \<open>t\<close> accumulated by the loop over
  the transformation items. The displacement stored is that of \<open>t\<close>, rounded to integer
  coordinates; the instance is stored with a simple (integer) transformation when \<open>t\<close>
  is orthogonal and has no magnification, and with a complex one otherwise. When the
  transformation is the single item \<open>T x y\<close>, the displacement is
  \<open>(rounded (x * sf), rounded (y * sf))\<close> and the transformation is stored as a simple one.
\<close>

theorem instance_transformation:
  assumes "cmd_C opt ci sf l r = Inr (l', r')"
  shows "\<exists>n c ra rb t rc.
     lexr read_integer r = Inr (n, ra) \<and> cell_for_id opt n ra = (c, rb) \<and>
     lexr (read_trans sf trans_unit) rb = Inr (t, rc) \<and>
     lay r' = insert_inst ci (make_inst opt sf l c t) (lay rb) \<and>
     inst_cell (make_inst opt sf l c t) = c \<and>
     inst_trans (make_inst opt sf l c t) = t \<and>
     inst_disp (make_inst opt sf l c t) = (rounded opt (fst (t_disp t)), rounded opt (snd (t_disp t))) \<and>
     inst_complex (make_inst opt sf l c t) = (\<not> (is_ortho t \<and> \<not> is_mag t)) \<and>
     (\<forall>x y s1 s2 s3 s4 s5.
        test_semi (m_stream rb) = (False, s1) \<and> get_char (skip_blanks s1) = Inr (CHR ''T'', s2) \<and>
        read_sinteger s2 = Inr (x, s3) \<and> read_sinteger s3 = Inr (y, s4) \<and> test_semi s4 = (True, s5) \<longrightarrow>
        inst_disp (make_inst opt sf l c t)
          = (rounded opt (real_of_int (sint x) * sf), rounded opt (real_of_int (sint y) * sf)) \<and>
        \<not> inst_complex (make_inst opt sf l c t))"
proof -
  from assms obtain n ra c rb t rc u where
    a: "lexr read_integer r = Inr (n, ra)" and b: "cell_for_id opt n ra = (c, rb)"
    and t: "lexr (read_trans sf trans_unit) rb = Inr (t, rc)"
    and e: "lexr expect_semi (rc\<lparr>lay := insert_inst ci (make_inst opt sf l c t) (lay rc)\<rparr>) = Inr (u, r')"
    unfolding cmd_C_def by (auto elim!: rbind_InrE split: prod.splits)
  have ly: "lay r' = insert_inst ci (make_inst opt sf l c t) (lay rb)"
    using lexr_fields [OF t] lexr_fields [OF e] by simp
  have single: "inst_disp (make_inst opt sf l c t)
          = (rounded opt (real_of_int (sint x) * sf), rounded opt (real_of_int (sint y) * sf)) \<and>
        \<not> inst_complex (make_inst opt sf l c t)"
    if h: "test_semi (m_stream rb) = (False, s1) \<and> get_char (skip_blanks s1) = Inr (CHR ''T'', s2) \<and>
        read_sinteger s2 = Inr (x, s3) \<and> read_sinteger s3 = Inr (y, s4) \<and> test_semi s4 = (True, s5)"
    for x y s1 s2 s3 s4 s5
  proof -
    from h have "read_trans sf trans_unit (m_stream rb)
         = Inr (trans_disp (real_of_int (sint x) * sf, real_of_int (sint y) * sf), s5)"
      by (intro read_trans_single_T) auto
    with t have "t = trans_disp (real_of_int (sint x) * sf, real_of_int (sint y) * sf)"
      by (simp add: lexr_def)
    then show ?thesis
      using trans_disp_simple [of "(real_of_int (sint x) * sf, real_of_int (sint y) * sf)"]
      by (simp add: make_inst_def trans_disp_def)
  qed
  have fields: "inst_cell (make_inst opt sf l c t) = c \<and>
     inst_trans (make_inst opt sf l c t) = t \<and>
     inst_disp (make_inst opt sf l c t) = (rounded opt (fst (t_disp t)), rounded opt (snd (t_disp t))) \<and>
     inst_complex (make_inst opt sf l c t) = (\<not> (is_ortho t \<and> \<not> is_mag t))"
    by (simp add: make_inst_def)
  from a b t ly fields single show ?thesis by blast
qed

theorem instance_transformation_witness:
  "cmd_C default_options 0 10 init_locals (new_reader '' 5 T 3 -4; E'')
     = Inr (init_locals\<lparr>insts := 1\<rparr>,
            (new_reader '' E'')
              \<lparr>m_cells_by_id := [5 \<mapsto> 0],
                lay := empty_layout
                  \<lparr>cells := [0 \<mapsto> \<lparr>cell_name = ''C5'', cell_shapes = [],
                       cell_insts = [\<lparr>inst_cell = 0, inst_complex = False,
                          inst_trans = trans_disp (30, - 40), inst_disp = (30, - 40), inst_array = None\<rparr>]\<rparr>],
                    next_cell := 1\<rparr>\<rparr>) \<and>
   (\<exists>n c ra rb t rc.
     lexr read_integer (new_reader '' 5 T 3 -4; E'') = Inr (n, ra) \<and> cell_for_id default_options n ra = (c, rb) \<and>
     lexr (read_trans 10 trans_unit) rb = Inr (t, rc) \<and>
     inst_disp (make_inst default_options 10 init_locals c t) = (30, - 40) \<and>
     \<not> inst_complex (make_inst default_options 10 init_locals c t))"
proof -
  let ?r = "new_reader '' 5 T 3 -4; E''"
  let ?r' = "(new_reader '' E'')
              \<lparr>m_cells_by_id := [5 \<mapsto> 0],
                lay := empty_layout
                  \<lparr>cells := [0 \<mapsto> \<lparr>cell_name = ''C5'', cell_shapes = [],
                       cell_insts = [\<lparr>inst_cell = 0, inst_complex = False,
                          inst_trans = trans_disp (30, - 40), inst_disp = (30, - 40), inst_array = None\<rparr>]\<rparr>],
                    next_cell := 1\<rparr>\<rparr>"
  have h: "cmd_C default_options 0 10 init_locals ?r = Inr (init_locals\<lparr>insts := 1\<rparr>, ?r')"
    by (simp add: run_simps trans_mult_def trans_disp_def trans_unit_def trans_apply_vec_def
          is_ortho_def is_mag_def trans_eps_def)
  from instance_transformation [OF h] obtain n c ra rb t rc where
    a: "lexr read_integer ?r = Inr (n, ra)" and b: "cell_for_id default_options n ra = (c, rb)"
    and t: "lexr (read_trans 10 trans_unit) rb = Inr (t, rc)"
    and k: "\<forall>x y s1 s2 s3 s4 s5.
        test_semi (m_stream rb) = (False, s1) \<and> get_char (skip_blanks s1) = Inr (CHR ''T'', s2) \<and>
        read_sinteger s2 = Inr (x, s3) \<and> read_sinteger s3 = Inr (y, s4) \<and> test_semi s4 = (True, s5) \<longrightarrow>
        inst_disp (make_inst default_options 10 init_locals c t)
          = (rounded default_options (real_of_int (sint x) * 10), rounded default_options (real_of_int (sint y) * 10)) \<and>
        \<not> inst_complex (make_inst default_options 10 init_locals c t)"
    by blast
  from a have ra: "m_stream ra = '' T 3 -4; E''" by (auto simp: run_simps)
  from b have rb: "m_stream rb = m_stream ra" by (rule cell_for_id_stream)
  have p: "test_semi (m_stream rb) = (False, ''T 3 -4; E'') \<and>
      get_char (skip_blanks ''T 3 -4; E'') = Inr (CHR ''T'', '' 3 -4; E'') \<and>
      read_sinteger '' 3 -4; E'' = Inr (3, '' -4; E'') \<and>
      read_sinteger '' -4; E'' = Inr (- 4, ''; E'') \<and> test_semi ''; E'' = (True, ''; E'')"
    by (simp add: rb ra run_simps)
  from k p have "inst_disp (make_inst default_options 10 init_locals c t)
          = (rounded default_options (real_of_int (sint (3 :: 32 word)) * 10),
             rounded default_options (real_of_int (sint (- 4 :: 32 word)) * 10)) \<and>
        \<not> inst_complex (make_inst default_options 10 init_locals c t)"
    by blast
  then have "inst_disp (make_inst default_options 10 init_locals c t) = (30, - 40) \<and>
        \<not> inst_complex (make_inst default_options 10 init_locals c t)"
    by (simp add: default_options_def)
  with h a b t show ?thesis by blast
qed

end
